theory Spec2Isabelle
  imports Complex_Main "HOL-Library.Multiset" "HOL-Library.Log_Nat"
begin

section \<open>Numbers and values\<close>

text \<open>
  The program is JavaScript: every number is a double.  A finite double is modelled by
  the real number it denotes, and an arithmetic operation on sample values by the exact
  operation followed by rounding to the nearest double, ties to the even significand.
  Times (millisecond timestamps, window and step sizes) are whole numbers of milliseconds
  far below \<open>2\<^sup>5\<^sup>3\<close>, on which sums, differences and comparisons are exact; their
  arithmetic is written without rounding, and so is that of the breach detector, which
  compares the windowed values with the thresholds and measures intervals of time.  A raw
  sample value may also be \<open>null\<close>, \<open>undefined\<close> or \<open>NaN\<close>; infinite sample values
  are outside the model.
\<close>

datatype jsvalue = Number real | NaNValue | Null | Undefined

text \<open>\<open>v !== null && v !== undefined && !isNaN(v)\<close>, returning the number that passes.\<close>

fun numericValue :: "jsvalue \<Rightarrow> real option" where
  "numericValue (Number x) = Some x"
| "numericValue NaNValue = None"
| "numericValue Null = None"
| "numericValue Undefined = None"

subsection \<open>Rounding to a double\<close>

text \<open>The nearest integer, a tie going to the even one.\<close>

definition roundHalfEven :: "real \<Rightarrow> int" where
  "roundHalfEven x =
     (let f = \<lfloor>x\<rfloor>; r = x - of_int f
      in if r < 1 / 2 then f else if 1 / 2 < r then f + 1 else if even f then f else f + 1)"

text \<open>The exponent \<open>e\<close> of a non-zero \<open>x\<close>, that is \<open>2\<^sup>e \<le> |x| < 2\<^sup>e\<^sup>+\<^sup>1\<close>.\<close>

definition binade :: "real \<Rightarrow> int" where
  "binade x = (if 1 \<le> \<bar>x\<bar> then bitlen \<lfloor>\<bar>x\<bar>\<rfloor> - 1 else - bitlen (\<lceil>1 / \<bar>x\<bar>\<rceil> - 1))"

text \<open>
  The double nearest to \<open>x\<close>: a significand of 53 bits, and below \<open>2\<^sup>-\<^sup>1\<^sup>0\<^sup>2\<^sup>2\<close> the
  multiples of \<open>2\<^sup>-\<^sup>1\<^sup>0\<^sup>7\<^sup>4\<close>.  The exponent is not bounded above here: where a result
  can leave the range of the doubles it is tested against \<open>2\<^sup>1\<^sup>0\<^sup>2\<^sup>4\<close> afterwards.
\<close>

definition roundDouble :: "real \<Rightarrow> real" where
  "roundDouble x =
     (if x = 0 then 0
      else let q = 2 powi (max (binade x - 52) (- 1074))
           in of_int (roundHalfEven (x / q)) * q)"

section \<open>Rolling-window aggregation: calculateRollingAggregation (src/datadog-fetcher.js)\<close>

record dataPoint =
  timestamp :: real
  pointValue :: jsvalue

record windowPoint =
  wp_timestamp :: real
  wp_value :: real
  windowStart :: real
  windowEnd :: real
  dataPointsInWindow :: nat

datatype error =
    NotPositive             \<comment> \<open>'Window size and step size must be positive'\<close>
  | InvalidAggregation      \<comment> \<open>'Invalid aggregation type. Must be one of: ...'\<close>
  | UnsupportedAggregation  \<comment> \<open>'Unsupported aggregation: ...'\<close>
  | TypeError               \<comment> \<open>reading a property of \<open>undefined\<close>\<close>

definition validAggregations :: "string list" where
  "validAggregations = [''avg'', ''sum'', ''min'', ''max'', ''count'']"

text \<open>
  The \<open>switch (aggregation)\<close> of the loop body, on the non-empty list of valid values.
  \<open>values.reduce((sum, v) => sum + v, 0)\<close> adds the values from left to right, in the
  order of the sorted samples, and every addition rounds; so does the division of
  \<open>avg\<close>.  The value of a window is a finite double: a sum that leaves the range of the
  doubles, an infinity in the code, is outside the model.
\<close>

definition aggregateValues :: "string \<Rightarrow> real list \<Rightarrow> error + real" where
  "aggregateValues aggregation vals =
     (if aggregation = ''avg''
      then Inr (roundDouble (foldl (\<lambda>sum v. roundDouble (sum + v)) 0 vals / real (length vals)))
      else if aggregation = ''sum'' then Inr (foldl (\<lambda>sum v. roundDouble (sum + v)) 0 vals)
      else if aggregation = ''min'' then Inr (Min (set vals))
      else if aggregation = ''max'' then Inr (Max (set vals))
      else if aggregation = ''count'' then Inr (real (length vals))
      else Inl UnsupportedAggregation)"

text \<open>
  \<open>sortedData.filter(point => point.timestamp > windowStart && point.timestamp <= windowEnd)\<close>
\<close>

definition pointsInWindow :: "dataPoint list \<Rightarrow> real \<Rightarrow> real \<Rightarrow> dataPoint list" where
  "pointsInWindow sortedData wStart wEnd =
     filter (\<lambda>point. timestamp point > wStart \<and> timestamp point \<le> wEnd) sortedData"

text \<open>
  The coverage test of the loop body, on the points collected in the window (it runs
  before the null filter):
  \<open>dataSpan < windowSpan * 0.25 && windowPoints.length < 3\<close>.
\<close>

definition sparseWindow :: "dataPoint list \<Rightarrow> real \<Rightarrow> real \<Rightarrow> bool" where
  "sparseWindow windowPoints wStart wEnd =
     (let windowSpan = wEnd - wStart;
          dataSpan = timestamp (windowPoints ! (length windowPoints - 1))
                       - timestamp (windowPoints ! 0)
      in dataSpan < windowSpan * 0.25 \<and> length windowPoints < 3)"

text \<open>
  One iteration of the \<open>for\<close> loop at cursor \<open>currentTime\<close>: \<open>Inr None\<close> is
  \<open>continue\<close>, \<open>Inr (Some p)\<close> is \<open>rollingData.push(p)\<close>, \<open>Inl\<close> a throw.
\<close>

definition rollingStep ::
  "dataPoint list \<Rightarrow> real \<Rightarrow> string \<Rightarrow> bool \<Rightarrow> real \<Rightarrow> error + windowPoint option" where
  "rollingStep sortedData windowSizeMs aggregation discardIncompleteWindows currentTime =
     (let wStart = currentTime - windowSizeMs;
          wEnd = currentTime;
          windowPoints = pointsInWindow sortedData wStart wEnd
      in if length windowPoints = 0 then Inr None
         else if discardIncompleteWindows \<and> length windowPoints > 0
                 \<and> sparseWindow windowPoints wStart wEnd then Inr None
         else
           let vals = List.map_filter numericValue (map pointValue windowPoints)
           in if length vals = 0 then Inr None
              else case aggregateValues aggregation vals of
                     Inl e \<Rightarrow> Inl e
                   | Inr aggregatedValue \<Rightarrow>
                       Inr (Some \<lparr> wp_timestamp = currentTime, wp_value = aggregatedValue,
                                   windowStart = wStart, windowEnd = wEnd,
                                   dataPointsInWindow = length vals \<rparr>))"

text \<open>
  \<open>for (let currentTime = startTime; currentTime <= lastTimestamp; currentTime += stepSizeMs)\<close>.
  The loop is only reached with a positive step (the function throws first otherwise);
  the guard \<open>0 < stepSizeMs\<close> records that, and makes the recursion terminate.
\<close>

function rollingLoop ::
  "dataPoint list \<Rightarrow> real \<Rightarrow> real \<Rightarrow> string \<Rightarrow> bool \<Rightarrow> real \<Rightarrow> real
     \<Rightarrow> error + windowPoint list" where
  "rollingLoop sortedData windowSizeMs stepSizeMs aggregation discardIncompleteWindows
       lastTimestamp currentTime =
     (if 0 < stepSizeMs \<and> currentTime \<le> lastTimestamp then
        (case rollingStep sortedData windowSizeMs aggregation discardIncompleteWindows
                currentTime of
           Inl e \<Rightarrow> Inl e
         | Inr r \<Rightarrow>
            (case rollingLoop sortedData windowSizeMs stepSizeMs aggregation
                    discardIncompleteWindows lastTimestamp (currentTime + stepSizeMs) of
               Inl e \<Rightarrow> Inl e
             | Inr rest \<Rightarrow> Inr (case r of None \<Rightarrow> rest | Some p \<Rightarrow> p # rest)))
      else Inr [])"
  by pat_completeness auto
termination
proof (relation "measure (\<lambda>(sortedData, windowSizeMs, stepSizeMs, aggregation, discard,
                            lastTimestamp, currentTime).
                    nat (\<lfloor>(lastTimestamp - currentTime) / stepSizeMs\<rfloor> + 1))")
  show "wf (measure (\<lambda>(sortedData, windowSizeMs, stepSizeMs, aggregation, discard,
                            lastTimestamp, currentTime :: real).
                    nat (\<lfloor>(lastTimestamp - currentTime) / stepSizeMs\<rfloor> + 1)))"
    by simp
next
  fix sortedData :: "dataPoint list" and windowSizeMs stepSizeMs :: real
    and aggregation :: string and discardIncompleteWindows :: bool
    and lastTimestamp currentTime :: real and x2 :: "windowPoint option"
  assume a: "0 < stepSizeMs \<and> currentTime \<le> lastTimestamp"
  have e: "(lastTimestamp - (currentTime + stepSizeMs)) / stepSizeMs
             = (lastTimestamp - currentTime) / stepSizeMs - 1"
    using a by (simp add: field_simps)
  have nn: "0 \<le> \<lfloor>(lastTimestamp - currentTime) / stepSizeMs\<rfloor>"
    using a by simp
  show "((sortedData, windowSizeMs, stepSizeMs, aggregation, discardIncompleteWindows,
           lastTimestamp, currentTime + stepSizeMs),
          (sortedData, windowSizeMs, stepSizeMs, aggregation, discardIncompleteWindows,
           lastTimestamp, currentTime))
        \<in> measure (\<lambda>(sortedData, windowSizeMs, stepSizeMs, aggregation, discard,
                            lastTimestamp, currentTime).
                    nat (\<lfloor>(lastTimestamp - currentTime) / stepSizeMs\<rfloor> + 1))"
    using nn by (simp add: e)
qed

declare rollingLoop.simps [simp del]

text \<open>
  The whole function.  \<open>[...dataPoints].sort((a, b) => a.timestamp - b.timestamp)\<close> is a
  stable sort by timestamp, as \<^const>\<open>sort_key\<close> is.  A \<open>null\<close> \<open>dataPoints\<close> takes the
  same branch as the empty list.
\<close>

definition calculateRollingAggregation ::
  "dataPoint list \<Rightarrow> real \<Rightarrow> real \<Rightarrow> string \<Rightarrow> bool \<Rightarrow> error + windowPoint list" where
  "calculateRollingAggregation dataPoints windowSizeMs stepSizeMs aggregation
       discardIncompleteWindows =
     (if windowSizeMs \<le> 0 \<or> stepSizeMs \<le> 0 then Inl NotPositive
      else if aggregation \<notin> set validAggregations then Inl InvalidAggregation
      else if length dataPoints = 0 then Inr []
      else
        let sortedData = sort_key timestamp dataPoints
        in if length sortedData = 0 then Inr []
           else
             let firstTimestamp = timestamp (sortedData ! 0);
                 lastTimestamp = timestamp (sortedData ! (length sortedData - 1));
                 startTime = (if discardIncompleteWindows then firstTimestamp + windowSizeMs
                              else firstTimestamp)
             in rollingLoop sortedData windowSizeMs stepSizeMs aggregation
                  discardIncompleteWindows lastTimestamp startTime)"

section \<open>Computed numbers that may be NaN, infinite or a negative zero\<close>

text \<open>
  Downstream of the aggregator the code divides by values that may be zero and reads
  fields of an empty object, so a computed number is a finite double, \<open>-0\<close> (which
  \<open>Math.round\<close> returns on \<open>[-0.5, 0)\<close>), an infinity or \<open>NaN\<close>.  \<open>Num 0\<close> is \<open>+0\<close>.
  The operations follow IEEE 754: on the special cases by the table of the standard, on
  finite operands by rounding the exact result, which becomes an infinity from
  \<open>2\<^sup>1\<^sup>0\<^sup>2\<^sup>4\<close> on and a signed zero when it rounds to zero.
\<close>

datatype jsnum = Num real | NegZero | PosInf | NegInf | NaN

fun js_isNaN :: "jsnum \<Rightarrow> bool" where
  "js_isNaN NaN = True"
| "js_isNaN _ = False"

fun js_isInf :: "jsnum \<Rightarrow> bool" where
  "js_isInf PosInf = True"
| "js_isInf NegInf = True"
| "js_isInf _ = False"

fun js_isZero :: "jsnum \<Rightarrow> bool" where
  "js_isZero (Num x) = (x = 0)"
| "js_isZero NegZero = True"
| "js_isZero _ = False"

text \<open>The sign bit.\<close>

fun js_negative :: "jsnum \<Rightarrow> bool" where
  "js_negative (Num x) = (x < 0)"
| "js_negative NegZero = True"
| "js_negative NegInf = True"
| "js_negative _ = False"

text \<open>A number that is \<open>+0\<close>, positive or \<open>+\<infinity>\<close>.\<close>

fun js_nonneg :: "jsnum \<Rightarrow> bool" where
  "js_nonneg (Num x) = (0 \<le> x)"
| "js_nonneg PosInf = True"
| "js_nonneg _ = False"

text \<open>The value of a finite number.\<close>

fun js_real :: "jsnum \<Rightarrow> real" where
  "js_real (Num x) = x"
| "js_real _ = 0"

definition js_signedInf :: "bool \<Rightarrow> jsnum" where
  "js_signedInf neg = (if neg then NegInf else PosInf)"

definition js_signedZero :: "bool \<Rightarrow> jsnum" where
  "js_signedZero neg = (if neg then NegZero else Num 0)"

text \<open>The double for the exact non-zero result \<open>x\<close> of an operation.\<close>

definition roundResult :: "real \<Rightarrow> jsnum" where
  "roundResult x =
     (let y = roundDouble x
      in if 2 ^ 1024 \<le> \<bar>y\<bar> then js_signedInf (x < 0)
         else if y = 0 \<and> x < 0 then NegZero
         else Num y)"

text \<open>\<open>-a\<close>, \<open>a + b\<close> and \<open>a - b\<close>.  A sum that is exactly zero is \<open>+0\<close>, unless both terms are \<open>-0\<close>.\<close>

fun js_neg :: "jsnum \<Rightarrow> jsnum" where
  "js_neg (Num x) = (if x = 0 then NegZero else Num (- x))"
| "js_neg NegZero = Num 0"
| "js_neg PosInf = NegInf"
| "js_neg NegInf = PosInf"
| "js_neg NaN = NaN"

definition js_add :: "jsnum \<Rightarrow> jsnum \<Rightarrow> jsnum" where
  "js_add a b =
     (if js_isNaN a \<or> js_isNaN b then NaN
      else if js_isInf a then (if js_isInf b \<and> a \<noteq> b then NaN else a)
      else if js_isInf b then b
      else if js_real a + js_real b = 0
           then (if a = NegZero \<and> b = NegZero then NegZero else Num 0)
      else roundResult (js_real a + js_real b))"

definition js_sub :: "jsnum \<Rightarrow> jsnum \<Rightarrow> jsnum" where
  "js_sub a b = js_add a (js_neg b)"

definition js_div :: "jsnum \<Rightarrow> jsnum \<Rightarrow> jsnum" where
  "js_div a b =
     (let neg = (js_negative a \<noteq> js_negative b)
      in if js_isNaN a \<or> js_isNaN b then NaN
         else if js_isInf a then (if js_isInf b then NaN else js_signedInf neg)
         else if js_isInf b then js_signedZero neg
         else if js_isZero b then (if js_isZero a then NaN else js_signedInf neg)
         else if js_isZero a then js_signedZero neg
         else roundResult (js_real a / js_real b))"

definition js_mul :: "jsnum \<Rightarrow> jsnum \<Rightarrow> jsnum" where
  "js_mul a b =
     (let neg = (js_negative a \<noteq> js_negative b)
      in if js_isNaN a \<or> js_isNaN b then NaN
         else if js_isInf a \<or> js_isInf b
              then (if js_isZero a \<or> js_isZero b then NaN else js_signedInf neg)
         else if js_isZero a \<or> js_isZero b then js_signedZero neg
         else roundResult (js_real a * js_real b))"

text \<open>\<open>Math.pow(a, 2)\<close>, taken to be the double nearest to the square.\<close>

definition js_pow2 :: "jsnum \<Rightarrow> jsnum" where
  "js_pow2 a = js_mul a a"

text \<open>
  \<open>Math.round\<close>: the nearest integer, ties towards \<open>+\<infinity>\<close>; \<open>-0\<close> on \<open>[-0.5, 0)\<close>.  The
  result is a double whenever the argument is, so nothing is rounded a second time.
\<close>

fun js_round :: "jsnum \<Rightarrow> jsnum" where
  "js_round (Num x) =
     (if \<lfloor>x + 1 / 2\<rfloor> = 0 \<and> x < 0 then NegZero else Num (of_int \<lfloor>x + 1 / 2\<rfloor>))"
| "js_round v = v"

text \<open>\<open>Math.sqrt\<close>: the double nearest to the square root.\<close>

fun js_sqrt :: "jsnum \<Rightarrow> jsnum" where
  "js_sqrt (Num x) = (if x < 0 then NaN else Num (roundDouble (sqrt x)))"
| "js_sqrt NegInf = NaN"
| "js_sqrt v = v"

text \<open>\<open>a < b\<close>; false when either side is \<open>NaN\<close>, and \<open>-0 < +0\<close> is false.\<close>

definition js_lt :: "jsnum \<Rightarrow> jsnum \<Rightarrow> bool" where
  "js_lt a b =
     (if js_isNaN a \<or> js_isNaN b then False
      else if a = NegInf then b \<noteq> NegInf
      else if b = PosInf then a \<noteq> PosInf
      else if a = PosInf \<or> b = NegInf then False
      else js_real a < js_real b)"

text \<open>\<open>Math.min(a, b)\<close> and \<open>Math.max(a, b)\<close>, where \<open>-0\<close> counts as smaller than \<open>+0\<close>.\<close>

definition js_min :: "jsnum \<Rightarrow> jsnum \<Rightarrow> jsnum" where
  "js_min a b =
     (if js_isNaN a \<or> js_isNaN b then NaN
      else if js_lt a b then a
      else if js_lt b a then b
      else if a = NegZero then a else b)"

definition js_max :: "jsnum \<Rightarrow> jsnum \<Rightarrow> jsnum" where
  "js_max a b =
     (if js_isNaN a \<or> js_isNaN b then NaN
      else if js_lt a b then b
      else if js_lt b a then a
      else if a = NegZero then b else a)"

text \<open>\<open>Math.round\<close> where only the integer matters (it is compared with \<open>===\<close> or against a positive bound).\<close>

definition mathRound :: "real \<Rightarrow> int" where
  "mathRound x = \<lfloor>x + 1 / 2\<rfloor>"

section \<open>Statistics: calculateStatistics (src/README.md)\<close>

record statistics =
  min_s :: real
  max_s :: real
  mean :: jsnum
  median :: real
  p05 :: real
  p10 :: real
  p50 :: real
  p90 :: real
  p95 :: real
  p99 :: real
  std :: jsnum

text \<open>
  \<open>None\<close> is the empty object \<open>{}\<close> returned for no values.  \<open>sorted[Math.floor(n * q)]\<close>
  is always in range for the six fractions used.  The local \<open>mean\<close> is the sum of the
  values, added from left to right in the order given, over their number; the sum, the
  differences, the squares and their sum are rounded at every step and may overflow.
\<close>

definition calculateStatistics :: "real list \<Rightarrow> statistics option" where
  "calculateStatistics vals =
     (if length vals = 0 then None
      else
        let sorted = sort vals;
            n = length sorted;
            mean = js_div (foldl (\<lambda>a b. js_add a (Num b)) (Num 0) vals) (Num (real n))
        in Some \<lparr> min_s = Min (set vals),
                  max_s = Max (set vals),
                  mean = js_round mean,
                  median = sorted ! nat \<lfloor>real n / 2\<rfloor>,
                  p05 = sorted ! nat \<lfloor>real n * 0.05\<rfloor>,
                  p10 = sorted ! nat \<lfloor>real n * 0.1\<rfloor>,
                  p50 = sorted ! nat \<lfloor>real n * 0.5\<rfloor>,
                  p90 = sorted ! nat \<lfloor>real n * 0.9\<rfloor>,
                  p95 = sorted ! nat \<lfloor>real n * 0.95\<rfloor>,
                  p99 = sorted ! nat \<lfloor>real n * 0.99\<rfloor>,
                  std = js_round (js_sqrt (js_div
                          (foldl (\<lambda>sq x. js_add sq (js_pow2 (js_sub (Num x) mean))) (Num 0) vals)
                          (Num (real n - 1)))) \<rparr>)"


section \<open>Breach detection: analyzeThresholdBreaches (src/README.md)\<close>

text \<open>A point of the windowed series, \<open>{timestamp, value}\<close>.\<close>

record seriesPoint =
  sp_timestamp :: real
  sp_value :: real

datatype level = Critical | Warning

text \<open>The configured thresholds; \<open>None\<close> is \<open>undefined\<close>.\<close>

record thresholds =
  critical :: "real option"
  warning :: "real option"
  criticalRecovery :: "real option"

record threshold =
  th_value :: real
  th_level :: level
  th_operator :: string

record breach =
  level :: level
  threshold :: real
  operator :: string
  startTime :: real
  startValue :: real
  peakValue :: real
  peakTime :: real
  endTime :: "real option"
  endValue :: "real option"
  duration :: real
  maxDeviation :: real
  isOngoing :: bool

record breachStats =
  totalBreaches :: nat
  criticalBreaches :: nat
  warningBreaches :: nat
  avgDuration :: int
  longestBreach :: int
  shortBreaches :: nat
  sustainedBreaches :: nat
  maxDeviationStat :: int

record breachAnalysis =
  breaches :: "breach list"
  stats :: "breachStats option"

definition thresholdsToCheck :: "thresholds \<Rightarrow> bool \<Rightarrow> threshold list" where
  "thresholdsToCheck ths isHighBad =
     (case critical ths of
        None \<Rightarrow> []
      | Some c \<Rightarrow> [\<lparr> th_value = c, th_level = Critical,
                     th_operator = (if isHighBad then ''>='' else ''<='') \<rparr>])
     @ (case warning ths of
        None \<Rightarrow> []
      | Some w \<Rightarrow> [\<lparr> th_value = w, th_level = Warning,
                     th_operator = (if isHighBad then ''>='' else ''<='') \<rparr>])"

definition breached :: "bool \<Rightarrow> threshold \<Rightarrow> seriesPoint \<Rightarrow> bool" where
  "breached isHighBad th point =
     (if isHighBad then sp_value point \<ge> th_value th else sp_value point \<le> th_value th)"

text \<open>
  The inner \<open>for\<close> loop over \<open>sortedData\<close> for one threshold: the state is
  \<open>currentBreach\<close> (\<open>None\<close> is \<open>null\<close>) and the shared \<open>breaches\<close> array, to which
  \<open>push\<close> appends.
\<close>

fun scanPoints ::
  "bool \<Rightarrow> threshold \<Rightarrow> seriesPoint list \<Rightarrow> breach option \<Rightarrow> breach list
     \<Rightarrow> breach option \<times> breach list" where
  "scanPoints isHighBad th [] currentBreach acc = (currentBreach, acc)"
| "scanPoints isHighBad th (point # rest) currentBreach acc =
     (if breached isHighBad th point then
        (case currentBreach of
           None \<Rightarrow>
             scanPoints isHighBad th rest
               (Some \<lparr> level = th_level th, threshold = th_value th,
                       operator = th_operator th,
                       startTime = sp_timestamp point, startValue = sp_value point,
                       peakValue = sp_value point, peakTime = sp_timestamp point,
                       endTime = None, endValue = None, duration = 0,
                       maxDeviation = \<bar>sp_value point - th_value th\<bar>,
                       isOngoing = False \<rparr>) acc
         | Some cb \<Rightarrow>
             let cb1 = (if isHighBad
                        then (if sp_value point > peakValue cb
                              then cb\<lparr> peakValue := sp_value point,
                                      peakTime := sp_timestamp point \<rparr>
                              else cb)
                        else (if sp_value point < peakValue cb
                              then cb\<lparr> peakValue := sp_value point,
                                      peakTime := sp_timestamp point \<rparr>
                              else cb));
                 cb2 = cb1\<lparr> maxDeviation :=
                               max (maxDeviation cb1) \<bar>sp_value point - th_value th\<bar> \<rparr>
             in scanPoints isHighBad th rest (Some cb2) acc)
      else
        (case currentBreach of
           None \<Rightarrow> scanPoints isHighBad th rest None acc
         | Some cb \<Rightarrow>
             let cb1 = cb\<lparr> endTime := Some (sp_timestamp point),
                            endValue := Some (sp_value point),
                            duration := (sp_timestamp point - startTime cb) / (1000 * 60) \<rparr>
             in scanPoints isHighBad th rest None
                  (if duration cb1 \<ge> 1 then acc @ [cb1] else acc)))"

text \<open>\<open>// Handle ongoing breach at end of data\<close>\<close>

definition closeOngoing :: "seriesPoint list \<Rightarrow> breach option \<Rightarrow> breach list \<Rightarrow> breach list" where
  "closeOngoing sortedData currentBreach acc =
     (case currentBreach of
        None \<Rightarrow> acc
      | Some cb \<Rightarrow>
          let lastPoint = sortedData ! (length sortedData - 1);
              cb1 = cb\<lparr> endTime := Some (sp_timestamp lastPoint),
                         endValue := Some (sp_value lastPoint),
                         duration := (sp_timestamp lastPoint - startTime cb) / (1000 * 60),
                         isOngoing := True \<rparr>
          in if duration cb1 \<ge> 1 then acc @ [cb1] else acc)"

text \<open>The outer loop, \<open>for (const threshold of thresholdsToCheck)\<close>.\<close>

definition checkThresholds ::
  "bool \<Rightarrow> seriesPoint list \<Rightarrow> threshold list \<Rightarrow> breach list" where
  "checkThresholds isHighBad sortedData ths =
     foldl (\<lambda>acc th. case scanPoints isHighBad th sortedData None acc of
                        (currentBreach, acc') \<Rightarrow> closeOngoing sortedData currentBreach acc')
       [] ths"

definition breachStatistics :: "breach list \<Rightarrow> breachStats" where
  "breachStatistics bs =
     \<lparr> totalBreaches = length bs,
       criticalBreaches = length (filter (\<lambda>b. level b = Critical) bs),
       warningBreaches = length (filter (\<lambda>b. level b = Warning) bs),
       avgDuration = (if length bs > 0
                      then mathRound (foldl (\<lambda>sum b. sum + duration b) 0 bs / real (length bs))
                      else 0),
       longestBreach = (if length bs > 0 then mathRound (Max (set (map duration bs))) else 0),
       shortBreaches = length (filter (\<lambda>b. duration b < 15) bs),
       sustainedBreaches = length (filter (\<lambda>b. duration b > 30) bs),
       maxDeviationStat =
         (if length bs > 0 then mathRound (Max (set (map maxDeviation bs))) else 0) \<rparr>"

definition analyzeThresholdBreaches ::
  "seriesPoint list \<Rightarrow> thresholds \<Rightarrow> bool \<Rightarrow> breachAnalysis" where
  "analyzeThresholdBreaches timeSeriesData ths isHighBad =
     (if length timeSeriesData = 0 then \<lparr> breaches = [], stats = None \<rparr>
      else
        let sortedData = sort_key sp_timestamp timeSeriesData;
            bs = checkThresholds isHighBad sortedData (thresholdsToCheck ths isHighBad)
        in \<lparr> breaches = bs, stats = Some (breachStatistics bs) \<rparr>)"

section \<open>The externally visible breach list: analyseMonitor (src/README.md)\<close>




section \<open>Combining the analyses: combineHighResData (src/README.md)\<close>

text \<open>
  One entry of \<open>batchAnalyses\<close>, with the fields the function reads: the raw series,
  \<open>queryInfo.aggregation\<close>, \<open>queryInfo.timeWindowMs\<close> and \<open>rollupSeconds\<close>.
\<close>

record rawData =
  timeSeriesData :: "dataPoint list"
  qi_aggregation :: string
  qi_timeWindowMs :: real
  rollupSeconds :: real

record combinedData =
  cd_stats :: "statistics option"
  totalPoints :: nat
  cd_breaches :: "breach list"
  cd_breachStats :: "breachStats option"
  volatilityScore :: jsnum
  cd_timeSeriesData :: "seriesPoint list"
  rawDataPoints :: "nat option"

text \<open>The object returned on both early exits.\<close>

definition emptyCombined :: combinedData where
  "emptyCombined = \<lparr> cd_stats = None, totalPoints = 0, cd_breaches = [],
                      cd_breachStats = None, volatilityScore = Num 0,
                      cd_timeSeriesData = [], rawDataPoints = None \<rparr>"

text \<open>
  Reading a field of \<open>stats\<close> for arithmetic: on the empty object the field is
  \<open>undefined\<close>, which every arithmetic use turns into \<open>NaN\<close>.
\<close>

definition statNum :: "(statistics \<Rightarrow> jsnum) \<Rightarrow> statistics option \<Rightarrow> jsnum" where
  "statNum field st = (case st of None \<Rightarrow> NaN | Some s \<Rightarrow> field s)"

text \<open>\<open>breachStats.field > k\<close>, which is false when the field is \<open>undefined\<close>.\<close>

definition bsGreater :: "(breachStats \<Rightarrow> 'a::ord) \<Rightarrow> breachStats option \<Rightarrow> 'a \<Rightarrow> bool" where
  "bsGreater field bs k = (case bs of None \<Rightarrow> False | Some b \<Rightarrow> field b > k)"

text \<open>
  The two lines that compute the score,
  \<open>coefficientOfVariation = stats.std / stats.mean\<close> and
  \<open>volatilityScore = Math.min(10, Math.round(coefficientOfVariation * 10))\<close>,
  on the rounded \<open>std\<close> and \<open>mean\<close> that \<^const>\<open>calculateStatistics\<close> returns.
\<close>

definition volatilityOf :: "statistics option \<Rightarrow> jsnum" where
  "volatilityOf st =
     (let coefficientOfVariation = js_div (statNum std st) (statNum mean st)
      in js_min (Num 10) (js_round (js_mul coefficientOfVariation (Num 10))))"

text \<open>
  The windowed series, \<open>const rollingWindowData = calculateRollingAggregation(...)\<close>, with
  the choice of the step and of the completeness flag that precedes the call.  The two
  quotients are rounded.
\<close>

definition rollingWindowData :: "rawData \<Rightarrow> error + windowPoint list" where
  "rollingWindowData raw =
     (let allTimeSeriesData = timeSeriesData raw;
          dataSpanMs = timestamp (allTimeSeriesData ! (length allTimeSeriesData - 1))
                         - timestamp (allTimeSeriesData ! 0);
          dataSpanHours = js_div (Num dataSpanMs) (Num (1000 * 60 * 60));
          avgPointsPerHour = js_div (Num (real (length allTimeSeriesData))) dataSpanHours;
          sparse = js_lt avgPointsPerHour (Num 1.5);
          stepSizeMs = (if sparse
                        then max (rollupSeconds raw * 1000) (roundDouble (dataSpanMs / 50))
                        else max (rollupSeconds raw * 1000) (5 * 60 * 1000));
          discardIncomplete = (\<not> sparse)
      in calculateRollingAggregation allTimeSeriesData (qi_timeWindowMs raw)
           stepSizeMs (qi_aggregation raw) discardIncomplete)"

text \<open>
  Debug output is left out.  Indexing the empty \<open>timeSeriesData\<close> reads a property of
  \<open>undefined\<close> and throws; an error of the aggregator propagates.
\<close>

definition combineHighResData ::
  "rawData list \<Rightarrow> thresholds \<Rightarrow> bool \<Rightarrow> error + combinedData" where
  "combineHighResData batchAnalyses ths isHighBad =
     (if length batchAnalyses = 0 then Inr emptyCombined
      else
        let raw = batchAnalyses ! 0;
            allTimeSeriesData = timeSeriesData raw
        in if length allTimeSeriesData = 0 then Inl TypeError
           else
             case rollingWindowData raw of
               Inl e \<Rightarrow> Inl e
             | Inr windowPoints \<Rightarrow>
                 if length windowPoints = 0 then Inr emptyCombined
                 else
                   let allValues = map wp_value windowPoints;
                       st = calculateStatistics allValues;
                       rollingTimeSeriesData =
                         map (\<lambda>point. \<lparr> sp_timestamp = wp_timestamp point,
                                         sp_value = wp_value point \<rparr>) windowPoints;
                       analysis = analyzeThresholdBreaches rollingTimeSeriesData ths isHighBad;
                       score = volatilityOf st
                   in Inr \<lparr> cd_stats = st,
                             totalPoints = length windowPoints,
                             cd_breaches = breaches analysis,
                             cd_breachStats = stats analysis,
                             volatilityScore = score,
                             cd_timeSeriesData = rollingTimeSeriesData,
                             rawDataPoints = Some (length allTimeSeriesData) \<rparr>)"

section \<open>Recommendations: generateRecommendations (src/README.md)\<close>

text \<open>
  The strategy is one of three fixed strings, told apart later by
  \<open>strategy.includes(...)\<close>.
\<close>

datatype strategy = Conservative | Balanced | Standard

fun strategyText :: "strategy \<Rightarrow> string" where
  "strategyText Conservative = ''Conservative (High volatility or sustained breaches)''"
| "strategyText Balanced = ''Balanced (Moderate volatility or some breaches)''"
| "strategyText Standard = ''Standard (Low volatility, minimal breaches)''"

record recommendation =
  strategy :: strategy
  rec_critical :: jsnum
  critical_operator :: string
  rec_warning :: jsnum
  warning_operator :: string
  recovery :: jsnum
  recovery_operator :: string
  recommended_window :: string
  recommended_delay :: nat

text \<open>
  The thresholds, the window and the delay of the result.  The \<open>insights\<close> strings and
  the \<open>*_reasoning\<close> texts are presentation and are left out; \<open>monitor\<close> is read only
  for them.  A decimal literal is the double nearest to it.
\<close>

definition generateRecommendations :: "combinedData \<Rightarrow> bool \<Rightarrow> recommendation" where
  "generateRecommendations combined isHighBad =
     (let st = cd_stats combined;
          bs = cd_breachStats combined;
          strat = (if js_lt (Num 7) (volatilityScore combined) \<or> bsGreater sustainedBreaches bs 3
                   then Conservative
                   else if js_lt (Num 4) (volatilityScore combined) \<or> bsGreater totalBreaches bs 5
                   then Balanced
                   else Standard);
          crit = (if isHighBad then
                    (case strat of
                       Conservative \<Rightarrow> js_max (statNum (\<lambda>s. Num (p95 s)) st)
                                        (js_mul (statNum (\<lambda>s. Num (max_s s)) st) (Num (roundDouble 0.7)))
                     | Balanced \<Rightarrow> js_max (statNum (\<lambda>s. Num (p99 s)) st)
                                    (js_mul (statNum (\<lambda>s. Num (max_s s)) st) (Num (roundDouble 0.8)))
                     | Standard \<Rightarrow> statNum (\<lambda>s. Num (p99 s)) st)
                  else
                    (case strat of
                       Conservative \<Rightarrow>
                         js_min (js_round (js_mul (statNum mean st) (Num (roundDouble 0.3))))
                           (js_round (js_mul (statNum (\<lambda>s. Num (min_s s)) st) (Num (roundDouble 1.5))))
                     | Balanced \<Rightarrow>
                         js_min (js_round (js_mul (statNum mean st) (Num (roundDouble 0.4))))
                           (js_round (js_mul (statNum (\<lambda>s. Num (min_s s)) st) (Num (roundDouble 1.3))))
                     | Standard \<Rightarrow> js_round (js_mul (statNum mean st) (Num (roundDouble 0.5)))));
          warn = (if isHighBad then
                    js_round (js_mul crit
                      (Num (roundDouble (case strat of Conservative \<Rightarrow> 0.65 | Balanced \<Rightarrow> 0.75
                            | Standard \<Rightarrow> 0.8))))
                  else
                    js_round (js_mul (statNum mean st)
                      (Num (roundDouble (case strat of Conservative \<Rightarrow> 0.6 | Balanced \<Rightarrow> 0.7
                            | Standard \<Rightarrow> 0.75)))));
          recov = (if isHighBad then
                     js_round (js_mul crit
                       (Num (roundDouble (case strat of Conservative \<Rightarrow> 0.85 | Balanced \<Rightarrow> 0.9
                             | Standard \<Rightarrow> 0.95))))
                   else js_round (js_mul crit (Num (roundDouble 1.1))));
          window = (if isHighBad then
                      (if bsGreater avgDuration bs 60 then ''avg(last_15m)''
                       else if bsGreater avgDuration bs 30 \<or> bsGreater sustainedBreaches bs 0
                       then ''avg(last_10m)''
                       else ''avg(last_5m)'')
                    else ''avg(last_15m)'');
          delay = (if isHighBad then
                     (if bsGreater avgDuration bs 60 then 900
                      else if bsGreater avgDuration bs 30 \<or> bsGreater sustainedBreaches bs 0
                      then 600
                      else 300)
                   else 600)
      in \<lparr> strategy = strat,
           rec_critical = js_round crit,
           critical_operator = (if isHighBad then ''>'' else ''<''),
           rec_warning = js_round warn,
           warning_operator = (if isHighBad then ''>'' else ''<''),
           recovery = js_round recov,
           recovery_operator = (if isHighBad then ''>'' else ''<''),
           recommended_window = window,
           recommended_delay = delay \<rparr>)"

section \<open>Notions of the specification used in the statements\<close>

text \<open>
  The specification's sparse-window test, in its words: the samples of the window that
  remain after the null, undefined and NaN values are dropped span less than 25% of the
  window and number fewer than 3.  It is compared with \<^const>\<open>sparseWindow\<close>, which is
  the code.
\<close>

definition specSparseAfterDrop :: "dataPoint list \<Rightarrow> real \<Rightarrow> real \<Rightarrow> bool" where
  "specSparseAfterDrop windowPoints wStart wEnd =
     (let valid = filter (\<lambda>p. numericValue (pointValue p) \<noteq> None) windowPoints
      in Max (timestamp ` set valid) - Min (timestamp ` set valid) < 0.25 * (wEnd - wStart)
         \<and> length valid < 3)"

text \<open>
  A window point without its value: the cursor position, the bounds of the window and
  the number of valid samples.
\<close>

definition windowShape :: "windowPoint \<Rightarrow> real \<times> real \<times> real \<times> nat" where
  "windowShape p = (wp_timestamp p, windowStart p, windowEnd p, dataPointsInWindow p)"

text \<open>
  The mean and the standard deviation of \<^const>\<open>calculateStatistics\<close> before
  \<open>Math.round\<close> is applied to them: the local \<open>mean\<close> and the argument of the
  \<open>Math.round\<close> of the \<open>std\<close> field.
\<close>

definition unroundedMean :: "real list \<Rightarrow> jsnum" where
  "unroundedMean vals =
     js_div (foldl (\<lambda>a b. js_add a (Num b)) (Num 0) vals) (Num (real (length vals)))"

definition unroundedStd :: "real list \<Rightarrow> jsnum" where
  "unroundedStd vals =
     js_sqrt (js_div
       (foldl (\<lambda>sq x. js_add sq (js_pow2 (js_sub (Num x) (unroundedMean vals)))) (Num 0) vals)
       (Num (real (length vals) - 1)))"

text \<open>
  The specification's volatility score, in its words: \<open>round(min(10, (std/mean) * 10))\<close>
  from the unrounded mean and the unrounded sample standard deviation, and 10 when the
  mean is 0.  It is compared with \<^const>\<open>volatilityOf\<close>, which is the code.
\<close>

definition specVolatilityScore :: "real list \<Rightarrow> real" where
  "specVolatilityScore vals =
     (let n = real (length vals);
          mu = sum_list vals / n;
          sigma = sqrt ((\<Sum>x\<leftarrow>vals. (x - mu)\<^sup>2) / (n - 1))
      in if mu = 0 then 10 else of_int \<lfloor>min 10 (sigma / mu * 10) + 1 / 2\<rfloor>)"

text \<open>How strict a strategy is: Standard, then Balanced, then Conservative.\<close>

fun strictness :: "strategy \<Rightarrow> nat" where
  "strictness Standard = 0"
| "strictness Balanced = 1"
| "strictness Conservative = 2"

section \<open>Example inputs\<close>

text \<open>
  Five-minute samples whose ten-minute rolling averages are 5, 10 and 0: with a warning
  threshold of 5 and a critical threshold of 10 one spike crosses both.
\<close>

definition exampleThresholds :: thresholds where
  "exampleThresholds = \<lparr> critical = Some 10, warning = Some 5, criticalRecovery = None \<rparr>"

definition exampleSeries :: "seriesPoint list" where
  "exampleSeries = [\<lparr> sp_timestamp = 600000, sp_value = 5 \<rparr>,
                    \<lparr> sp_timestamp = 900000, sp_value = 10 \<rparr>,
                    \<lparr> sp_timestamp = 1200000, sp_value = 0 \<rparr>]"

definition fiveMinuteBatch :: "real list \<Rightarrow> rawData list" where
  "fiveMinuteBatch vs =
     [\<lparr> timeSeriesData =
           map (\<lambda>(i, v). \<lparr> timestamp = 300000 * real i, pointValue = Number v \<rparr>)
             (zip [0..<length vs] vs),
         qi_aggregation = ''avg'', qi_timeWindowMs = 600000, rollupSeconds = 300 \<rparr>]"

text \<open>The \<open>avg\<close> of a window that holds the two values \<open>a\<close> and \<open>b\<close>, in this order.\<close>

definition averageOfTwo :: "real \<Rightarrow> real \<Rightarrow> real" where
  "averageOfTwo a b = roundDouble (roundDouble (roundDouble (0 + a) + b) / 2)"

definition exampleBatch :: "rawData list" where
  "exampleBatch = fiveMinuteBatch [5, 5, 5, 15, -15]"

text \<open>
  The windowed series with the values \<open>rs\<close>, the first window ending at 600000, and the
  summary that \<^const>\<open>combineHighResData\<close> builds from it.
\<close>

definition rollingSeries :: "real list \<Rightarrow> seriesPoint list" where
  "rollingSeries rs =
     map (\<lambda>(i, r). \<lparr> sp_timestamp = 300000 * real (i + 2), sp_value = r \<rparr>)
       (zip [0..<length rs] rs)"

definition combinedOf :: "real list \<Rightarrow> thresholds \<Rightarrow> bool \<Rightarrow> nat \<Rightarrow> combinedData" where
  "combinedOf rs ths isHighBad raw =
     \<lparr> cd_stats = calculateStatistics rs,
       totalPoints = length rs,
       cd_breaches = breaches (analyzeThresholdBreaches (rollingSeries rs) ths isHighBad),
       cd_breachStats = stats (analyzeThresholdBreaches (rollingSeries rs) ths isHighBad),
       volatilityScore = volatilityOf (calculateStatistics rs),
       cd_timeSeriesData = rollingSeries rs,
       rawDataPoints = Some raw \<rparr>"

text \<open>A single raw sample: no window fits, so the windowed series is empty.\<close>

definition singleSampleBatch :: "rawData list" where
  "singleSampleBatch =
     [\<lparr> timeSeriesData = [\<lparr> timestamp = 0, pointValue = Number 1 \<rparr>],
         qi_aggregation = ''avg'', qi_timeWindowMs = 600000, rollupSeconds = 300 \<rparr>]"

section \<open>Rounding to a double: properties\<close>

lemma powi_less_cancel:
  assumes "(2::real) powi a < 2 powi b"
  shows "a < b"
proof (rule ccontr)
  assume "\<not> a < b"
  then have "b \<le> a" by simp
  then have "(2::real) powi b \<le> 2 powi a" by (intro power_int_increasing) simp_all
  with assms show False by linarith
qed

lemma binade_lower:
  assumes "x \<noteq> 0"
  shows "2 powi (binade x) \<le> \<bar>x\<bar>"
proof (cases "1 \<le> \<bar>x\<bar>")
  case True
  let ?n = "\<lfloor>\<bar>x\<bar>\<rfloor>"
  have n: "0 < ?n" using True by simp
  then have b1: "1 \<le> bitlen ?n" by (auto simp: bitlen_alt_def)
  have "(2::int) ^ nat (bitlen ?n - 1) \<le> ?n" using bitlen_bounds[OF n] ..
  then have "(2::real) ^ nat (bitlen ?n - 1) \<le> of_int ?n"
    by (metis of_int_le_iff of_int_numeral of_int_power)
  also have "\<dots> \<le> \<bar>x\<bar>" by simp
  finally have "(2::real) ^ nat (bitlen ?n - 1) \<le> \<bar>x\<bar>" .
  moreover have "(2::real) powi (bitlen ?n - 1) = 2 ^ nat (bitlen ?n - 1)"
    using b1 by (simp add: power_int_def)
  ultimately show ?thesis using True by (simp add: binade_def)
next
  case False
  then have small: "\<bar>x\<bar> < 1" by simp
  have pos: "0 < \<bar>x\<bar>" using assms by simp
  let ?y = "1 / \<bar>x\<bar>"
  let ?m = "\<lceil>?y\<rceil> - 1"
  have y1: "1 < ?y" using small pos by simp
  then have "1 < \<lceil>?y\<rceil>" by (simp add: less_ceiling_iff)
  then have m: "0 < ?m" by simp
  have "?m < 2 ^ nat (bitlen ?m)" using bitlen_bounds[OF m] ..
  then have "\<lceil>?y\<rceil> \<le> 2 ^ nat (bitlen ?m)" by simp
  then have "real_of_int \<lceil>?y\<rceil> \<le> 2 ^ nat (bitlen ?m)"
    by (metis of_int_le_iff of_int_numeral of_int_power)
  then have "?y \<le> 2 ^ nat (bitlen ?m)" by (meson le_of_int_ceiling order_trans)
  then have "1 \<le> 2 ^ nat (bitlen ?m) * \<bar>x\<bar>" using pos by (simp add: field_simps)
  then have "1 / 2 ^ nat (bitlen ?m) \<le> \<bar>x\<bar>" by (simp add: field_simps)
  moreover have "(2::real) powi (- bitlen ?m) = 1 / 2 ^ nat (bitlen ?m)"
    using bitlen_nonneg[of ?m] by (simp add: power_int_def field_simps)
  ultimately show ?thesis using False by (simp add: binade_def)
qed

lemma binade_upper:
  assumes "x \<noteq> 0"
  shows "\<bar>x\<bar> < 2 powi (binade x + 1)"
proof (cases "1 \<le> \<bar>x\<bar>")
  case True
  let ?n = "\<lfloor>\<bar>x\<bar>\<rfloor>"
  have n: "0 < ?n" using True by simp
  then have b1: "1 \<le> bitlen ?n" by (auto simp: bitlen_alt_def)
  have "?n < 2 ^ nat (bitlen ?n)" using bitlen_bounds[OF n] ..
  then have "?n + 1 \<le> 2 ^ nat (bitlen ?n)" by simp
  then have "real_of_int (?n + 1) \<le> 2 ^ nat (bitlen ?n)"
    by (metis of_int_le_iff of_int_numeral of_int_power)
  moreover have "\<bar>x\<bar> < real_of_int (?n + 1)" by linarith
  ultimately have "\<bar>x\<bar> < 2 ^ nat (bitlen ?n)" by linarith
  moreover have "(2::real) powi (bitlen ?n - 1 + 1) = 2 ^ nat (bitlen ?n)"
    using b1 by (simp add: power_int_def)
  ultimately show ?thesis using True by (simp add: binade_def)
next
  case False
  then have small: "\<bar>x\<bar> < 1" by simp
  have pos: "0 < \<bar>x\<bar>" using assms by simp
  let ?y = "1 / \<bar>x\<bar>"
  let ?m = "\<lceil>?y\<rceil> - 1"
  have y1: "1 < ?y" using small pos by simp
  then have "1 < \<lceil>?y\<rceil>" by (simp add: less_ceiling_iff)
  then have m: "0 < ?m" by simp
  then have b1: "1 \<le> bitlen ?m" by (auto simp: bitlen_alt_def)
  have "(2::int) ^ nat (bitlen ?m - 1) \<le> ?m" using bitlen_bounds[OF m] ..
  then have "(2::real) ^ nat (bitlen ?m - 1) \<le> real_of_int ?m"
    by (metis of_int_le_iff of_int_numeral of_int_power)
  moreover have "real_of_int ?m < ?y" by linarith
  ultimately have "(2::real) ^ nat (bitlen ?m - 1) < ?y" by linarith
  then have "2 ^ nat (bitlen ?m - 1) * \<bar>x\<bar> < 1" using pos by (simp add: field_simps)
  then have "\<bar>x\<bar> < 1 / 2 ^ nat (bitlen ?m - 1)" by (simp add: field_simps)
  moreover have "(2::real) powi (- bitlen ?m + 1) = 1 / 2 ^ nat (bitlen ?m - 1)"
  proof -
    have "- bitlen ?m + 1 = - (bitlen ?m - 1)" by simp
    moreover have "(2::real) powi (- (bitlen ?m - 1)) = 1 / 2 ^ nat (bitlen ?m - 1)"
      using b1 by (simp add: power_int_def field_simps)
    ultimately show ?thesis by simp
  qed
  ultimately show ?thesis using False by (simp add: binade_def)
qed

lemma roundHalfEven_of_int [simp]: "roundHalfEven (of_int k) = k"
  by (simp add: roundHalfEven_def)

lemma roundHalfEven_nonneg: "0 \<le> x \<Longrightarrow> 0 \<le> roundHalfEven x"
  by (auto simp: roundHalfEven_def Let_def)

lemma roundHalfEven_nonpos: "x \<le> 0 \<Longrightarrow> roundHalfEven x \<le> 0"
proof -
  assume a: "x \<le> 0"
  show ?thesis
  proof (cases "x = of_int \<lfloor>x\<rfloor>")
    case True
    then have "roundHalfEven x = \<lfloor>x\<rfloor>" by (simp add: roundHalfEven_def Let_def)
    with a show ?thesis by simp
  next
    case False
    moreover have "of_int \<lfloor>x\<rfloor> \<le> x" by simp
    ultimately have "of_int \<lfloor>x\<rfloor> < x" by linarith
    with a have "\<lfloor>x\<rfloor> < 0" by linarith
    then have "\<lfloor>x\<rfloor> + 1 \<le> 0" by linarith
    then show ?thesis by (auto simp: roundHalfEven_def Let_def)
  qed
qed

lemma roundDouble_nonneg: "0 \<le> x \<Longrightarrow> 0 \<le> roundDouble x"
  by (auto simp: roundDouble_def Let_def intro!: mult_nonneg_nonneg roundHalfEven_nonneg
        divide_nonneg_pos)

lemma roundDouble_nonpos: "x \<le> 0 \<Longrightarrow> roundDouble x \<le> 0"
proof -
  assume a: "x \<le> 0"
  show ?thesis
  proof (cases "x = 0")
    case True then show ?thesis by (simp add: roundDouble_def)
  next
    case False
    let ?q = "(2::real) powi (max (binade x - 52) (- 1074))"
    have q: "0 < ?q" by simp
    have "x / ?q \<le> 0" using a q by (simp add: divide_nonpos_pos)
    then have "roundHalfEven (x / ?q) \<le> 0" by (rule roundHalfEven_nonpos)
    then have "of_int (roundHalfEven (x / ?q)) * ?q \<le> 0"
      using q by (simp add: mult_nonpos_nonneg)
    with False show ?thesis by (simp add: roundDouble_def Let_def)
  qed
qed

lemma roundDouble_representable:
  assumes "\<bar>k\<bar> < 2 ^ 53" and "- 1074 \<le> j"
  shows "roundDouble (of_int k * 2 powi j) = of_int k * 2 powi j"
proof (cases "k = 0")
  case True
  then show ?thesis by (simp add: roundDouble_def)
next
  case False
  let ?x = "real_of_int k * 2 powi j"
  have x0: "?x \<noteq> 0" using False by simp
  have "\<bar>?x\<bar> = real_of_int \<bar>k\<bar> * 2 powi j" by (simp add: abs_mult)
  also have "\<dots> < 2 ^ 53 * 2 powi j"
  proof -
    have "real_of_int \<bar>k\<bar> < 2 ^ 53" using assms(1) by (metis of_int_less_iff of_int_numeral of_int_power)
    then show ?thesis by simp
  qed
  also have "\<dots> = 2 powi (53 + j)" by (simp add: power_int_add)
  finally have up: "\<bar>?x\<bar> < 2 powi (53 + j)" .
  have "2 powi (binade ?x) \<le> \<bar>?x\<bar>" using binade_lower[OF x0] .
  with up have "(2::real) powi (binade ?x) < 2 powi (53 + j)" by linarith
  then have "binade ?x < 53 + j"
    by (rule powi_less_cancel)
  then have c: "max (binade ?x - 52) (- 1074) \<le> j" using assms(2) by simp
  define c where "c = max (binade ?x - 52) (- 1074)"
  have cj: "c \<le> j" using c by (simp add: c_def)
  have "?x / 2 powi c = real_of_int k * 2 powi (j - c)"
    by (simp add: power_int_diff)
  also have "\<dots> = real_of_int k * 2 ^ nat (j - c)"
    using cj by (simp add: power_int_def)
  also have "\<dots> = real_of_int (k * 2 ^ nat (j - c))" by simp
  finally have "roundHalfEven (?x / 2 powi c) = k * 2 ^ nat (j - c)"
    by (simp only: roundHalfEven_of_int)
  then have "of_int (roundHalfEven (?x / 2 powi c)) * 2 powi c
               = real_of_int k * (2 ^ nat (j - c) * 2 powi c)" by simp
  also have "(2::real) ^ nat (j - c) * 2 powi c = 2 powi j"
  proof -
    have "(2::real) ^ nat (j - c) = 2 powi (j - c)" using cj by (simp add: power_int_def)
    then show ?thesis by (simp add: power_int_add[symmetric])
  qed
  finally have "of_int (roundHalfEven (?x / 2 powi c)) * 2 powi c = ?x" .
  then show ?thesis using x0 unfolding roundDouble_def Let_def c_def by simp
qed

lemma roundDouble_of_int: "\<bar>k\<bar> < 2 ^ 53 \<Longrightarrow> roundDouble (of_int k) = of_int k"
  using roundDouble_representable[of k 0] by simp

lemma roundDouble_numeral [simp]:
  "(numeral n :: int) < 9007199254740992 \<Longrightarrow> roundDouble (numeral n) = numeral n"
  using roundDouble_of_int[of "numeral n"] by simp

lemma roundDouble_neg_numeral [simp]:
  "(numeral n :: int) < 9007199254740992 \<Longrightarrow> roundDouble (- numeral n) = - numeral n"
  using roundDouble_of_int[of "- numeral n"] by simp

lemma roundDouble_0 [simp]: "roundDouble 0 = 0"
  by (simp add: roundDouble_def)

lemma roundDouble_1 [simp]: "roundDouble 1 = 1"
  using roundDouble_of_int[of 1] by simp

lemma roundDouble_neg_1 [simp]: "roundDouble (- 1) = - 1"
  using roundDouble_of_int[of "- 1"] by simp

lemma roundDouble_halves [simp]:
  "(numeral n :: int) < 9007199254740992 \<Longrightarrow> roundDouble (numeral n / 2) = numeral n / 2"
  "(numeral n :: int) < 9007199254740992 \<Longrightarrow> roundDouble (- (numeral n / 2)) = - (numeral n / 2)"
  "roundDouble (1 / 2) = 1 / 2" "roundDouble (- (1 / 2)) = - (1 / 2)"
  using roundDouble_representable[of "numeral n" "- 1"]
    roundDouble_representable[of "- numeral n" "- 1"]
    roundDouble_representable[of 1 "- 1"] roundDouble_representable[of "- 1" "- 1"]
  by (simp_all add: power_int_minus)

lemma roundDouble_quarters [simp]:
  "(numeral n :: int) < 9007199254740992 \<Longrightarrow> roundDouble (numeral n / 4) = numeral n / 4"
  "(numeral n :: int) < 9007199254740992 \<Longrightarrow> roundDouble (- (numeral n / 4)) = - (numeral n / 4)"
  "roundDouble (1 / 4) = 1 / 4" "roundDouble (- (1 / 4)) = - (1 / 4)"
  using roundDouble_representable[of "numeral n" "- 2"]
    roundDouble_representable[of "- numeral n" "- 2"]
    roundDouble_representable[of 1 "- 2"] roundDouble_representable[of "- 1" "- 2"]
  by (simp_all add: power_int_minus)

lemma binade_eqI:
  assumes "2 powi e \<le> \<bar>x\<bar>" and "\<bar>x\<bar> < 2 powi (e + 1)"
  shows "binade x = e"
proof -
  have "(0::real) < 2 powi e" by simp
  with assms(1) have "0 < \<bar>x\<bar>" by linarith
  then have x0: "x \<noteq> 0" by simp
  have "(2::real) powi (binade x) < 2 powi (e + 1)"
    using binade_lower[OF x0] assms(2) by linarith
  then have a: "binade x < e + 1" by (rule powi_less_cancel)
  have "(2::real) powi e < 2 powi (binade x + 1)"
    using binade_upper[OF x0] assms(1) by linarith
  then have b: "e < binade x + 1" by (rule powi_less_cancel)
  from a b show ?thesis by simp
qed

lemma roundDouble_eval:
  assumes "2 powi e \<le> \<bar>x\<bar>" and "\<bar>x\<bar> < 2 powi (e + 1)"
  shows "roundDouble x = of_int (roundHalfEven (x / 2 powi (max (e - 52) (- 1074))))
                           * 2 powi (max (e - 52) (- 1074))"
proof -
  have "(0::real) < 2 powi e" by simp
  with assms(1) have "0 < \<bar>x\<bar>" by linarith
  then have x0: "x \<noteq> 0" by simp
  show ?thesis
    using x0 by (simp add: roundDouble_def Let_def binade_eqI[OF assms])
qed

subsection \<open>Some doubles\<close>

lemma roundDouble_third: "roundDouble (1 / 3) = 6004799503160661 / 18014398509481984"
  using roundDouble_eval[of "- 2" "1 / 3"]
  by (simp add: power_int_minus roundHalfEven_def Let_def)

lemma roundDouble_ten_to_16: "roundDouble 10000000000000000 = 10000000000000000"
  using roundDouble_representable[of 5000000000000000 1] by simp

lemma roundDouble_ten_to_16_plus_1: "roundDouble 10000000000000001 = 10000000000000000"
  using roundDouble_eval[of 53 10000000000000001]
  by (simp add: roundHalfEven_def Let_def)

text \<open>5 divided by the double nearest to \<open>1/3\<close>.\<close>

lemma roundDouble_fifteen:
  "roundDouble (90071992547409920 / 6004799503160661) = 15"
  using roundDouble_eval[of 3 "90071992547409920 / 6004799503160661"]
  by (simp add: power_int_minus roundHalfEven_def Let_def)

subsection \<open>Results of operations\<close>

lemma roundResult_0 [simp]: "roundResult 0 = Num 0"
  by (simp add: roundResult_def)

lemma roundResult_representable:
  assumes "\<bar>k\<bar> < 2 ^ 53" and "- 1074 \<le> j" and "j \<le> 971"
  shows "roundResult (of_int k * 2 powi j) = Num (of_int k * 2 powi j)"
proof -
  let ?x = "real_of_int k * 2 powi j"
  have r: "roundDouble ?x = ?x" using assms(1,2) by (rule roundDouble_representable)
  have "\<bar>?x\<bar> = real_of_int \<bar>k\<bar> * 2 powi j" by (simp add: abs_mult)
  also have "\<dots> < 2 ^ 53 * 2 powi j"
  proof -
    have "real_of_int \<bar>k\<bar> < 2 ^ 53"
      using assms(1) by (metis of_int_less_iff of_int_numeral of_int_power)
    then show ?thesis by simp
  qed
  also have "\<dots> = 2 powi (53 + j)" by (simp add: power_int_add)
  also have "\<dots> \<le> 2 powi 1024" using assms(3) by (intro power_int_increasing) simp_all
  finally have "\<bar>?x\<bar> < 2 ^ 1024" by simp
  then show ?thesis by (auto simp add: roundResult_def Let_def r)
qed

lemma roundResult_numeral [simp]:
  "(numeral n :: int) < 9007199254740992 \<Longrightarrow> roundResult (numeral n) = Num (numeral n)"
  "(numeral n :: int) < 9007199254740992 \<Longrightarrow> roundResult (- numeral n) = Num (- numeral n)"
  "roundResult 1 = Num 1" "roundResult (- 1) = Num (- 1)"
  using roundResult_representable[of "numeral n" 0] roundResult_representable[of "- numeral n" 0]
    roundResult_representable[of 1 0] roundResult_representable[of "- 1" 0]
  by simp_all

lemma roundResult_halves [simp]:
  "(numeral n :: int) < 9007199254740992 \<Longrightarrow> roundResult (numeral n / 2) = Num (numeral n / 2)"
  "(numeral n :: int) < 9007199254740992
     \<Longrightarrow> roundResult (- (numeral n / 2)) = Num (- (numeral n / 2))"
  "roundResult (1 / 2) = Num (1 / 2)" "roundResult (- (1 / 2)) = Num (- (1 / 2))"
  using roundResult_representable[of "numeral n" "- 1"]
    roundResult_representable[of "- numeral n" "- 1"]
    roundResult_representable[of 1 "- 1"] roundResult_representable[of "- 1" "- 1"]
  by (simp_all add: power_int_minus)

lemma roundResult_quarters [simp]:
  "(numeral n :: int) < 9007199254740992 \<Longrightarrow> roundResult (numeral n / 4) = Num (numeral n / 4)"
  "(numeral n :: int) < 9007199254740992
     \<Longrightarrow> roundResult (- (numeral n / 4)) = Num (- (numeral n / 4))"
  "roundResult (1 / 4) = Num (1 / 4)" "roundResult (- (1 / 4)) = Num (- (1 / 4))"
  using roundResult_representable[of "numeral n" "- 2"]
    roundResult_representable[of "- numeral n" "- 2"]
    roundResult_representable[of 1 "- 2"] roundResult_representable[of "- 1" "- 2"]
  by (simp_all add: power_int_minus)

lemma roundResult_finite:
  assumes "roundDouble x = y" and "\<bar>y\<bar> < 2 ^ 1024" and "y \<noteq> 0"
  shows "roundResult x = Num y"
  using assms by (auto simp add: roundResult_def Let_def)

section \<open>The rolling-window aggregator: properties\<close>

subsection \<open>The loop\<close>

lemma aggregateValues_valid:
  "aggregation \<in> set validAggregations \<Longrightarrow> \<exists>v. aggregateValues aggregation vals = Inr v"
  by (auto simp: validAggregations_def aggregateValues_def)

lemma rollingStep_valid:
  assumes "aggregation \<in> set validAggregations"
  shows "\<exists>r. rollingStep sd w aggregation d t = Inr r"
proof -
  have "\<And>vals. \<exists>v. aggregateValues aggregation vals = Inr v"
    using assms by (rule aggregateValues_valid)
  then show ?thesis
    unfolding rollingStep_def Let_def
    by (auto split: sum.splits) (metis Inl_Inr_False)+
qed

lemma rollingStep_Some:
  assumes "rollingStep sd w aggregation d t = Inr (Some p)"
  shows "wp_timestamp p = t \<and> windowStart p = t - w \<and> windowEnd p = t
         \<and> 1 \<le> dataPointsInWindow p"
  using assms unfolding rollingStep_def Let_def
  by (auto split: if_splits sum.splits simp: Suc_le_eq)


lemma rollingLoop_points:
  assumes "rollingLoop sd w s aggregation d lastT t = Inr out" and "p \<in> set out"
  shows "\<exists>k::nat. t + real k * s \<le> lastT
            \<and> rollingStep sd w aggregation d (t + real k * s) = Inr (Some p)"
  using assms
proof (induction sd w s aggregation d lastT t arbitrary: out rule: rollingLoop.induct)
  case (1 sd w s aggregation d lastT t)
  show ?case
  proof (cases "0 < s \<and> t \<le> lastT")
    case True
    from "1.prems"(1) True obtain r rest where
      r: "rollingStep sd w aggregation d t = Inr r" and
      rest: "rollingLoop sd w s aggregation d lastT (t + s) = Inr rest" and
      out: "out = (case r of None \<Rightarrow> rest | Some q \<Rightarrow> q # rest)"
      by (subst (asm) rollingLoop.simps) (auto split: sum.splits)
    show ?thesis
    proof (cases "r = Some p")
      case True
      with r \<open>0 < s \<and> t \<le> lastT\<close> have "t + real 0 * s \<le> lastT
            \<and> rollingStep sd w aggregation d (t + real 0 * s) = Inr (Some p)" by simp
      then show ?thesis by blast
    next
      case False
      with out "1.prems"(2) have "p \<in> set rest" by (auto split: option.splits)
      from "1.IH"[OF True r rest this] obtain k :: nat where
        "t + s + real k * s \<le> lastT"
        "rollingStep sd w aggregation d (t + s + real k * s) = Inr (Some p)" by blast
      then have "t + real (Suc k) * s \<le> lastT
            \<and> rollingStep sd w aggregation d (t + real (Suc k) * s) = Inr (Some p)"
        by (simp add: algebra_simps)
      then show ?thesis by blast
    qed
  next
    case False
    with "1.prems" show ?thesis by (subst (asm) rollingLoop.simps) auto
  qed
qed


subsection \<open>Shape and order of the output\<close>

lemma sorted_first_Min:
  assumes "xs \<noteq> []" and "sorted (map f xs)"
  shows "f (xs ! 0) = Min (f ` set xs)"
proof (rule Min_eqI[symmetric])
  show "finite (f ` set xs)" by simp
  show "f (xs ! 0) \<in> f ` set xs" using assms(1) by (simp add: nth_mem)
  fix y assume "y \<in> f ` set xs"
  then obtain i where i: "i < length xs" "y = f (xs ! i)"
    by (auto simp: in_set_conv_nth)
  have "map f xs ! 0 \<le> map f xs ! i"
    using assms(2) i(1) by (intro sorted_nth_mono) auto
  then show "f (xs ! 0) \<le> y" using i assms(1) by simp
qed

lemma sorted_last_Max:
  assumes "xs \<noteq> []" and "sorted (map f xs)"
  shows "f (xs ! (length xs - 1)) = Max (f ` set xs)"
proof (rule Max_eqI[symmetric])
  show "finite (f ` set xs)" by simp
  show "f (xs ! (length xs - 1)) \<in> f ` set xs" using assms(1) by (simp add: nth_mem)
  fix y assume "y \<in> f ` set xs"
  then obtain i where i: "i < length xs" "y = f (xs ! i)"
    by (auto simp: in_set_conv_nth)
  have "map f xs ! i \<le> map f xs ! (length xs - 1)"
    using assms i(1) by (intro sorted_nth_mono) auto
  then show "y \<le> f (xs ! (length xs - 1))" using i assms(1) by simp
qed

lemma calculateRollingAggregation_loop:
  assumes "0 < w" "0 < s" "aggregation \<in> set validAggregations" "dps \<noteq> []"
  shows "calculateRollingAggregation dps w s aggregation d =
           rollingLoop (sort_key timestamp dps) w s aggregation d
             (Max (timestamp ` set dps))
             (if d then Min (timestamp ` set dps) + w else Min (timestamp ` set dps))"
proof -
  let ?sd = "sort_key timestamp dps"
  have ne: "?sd \<noteq> []" using assms(4) by (metis length_sort list.size(3) length_0_conv)
  have srt: "sorted (map timestamp ?sd)" by simp
  have f: "timestamp (?sd ! 0) = Min (timestamp ` set dps)"
    using sorted_first_Min[OF ne srt] by simp
  have l: "timestamp (?sd ! (length ?sd - 1)) = Max (timestamp ` set dps)"
    using sorted_last_Max[OF ne srt] by simp
  show ?thesis
    using assms ne f l by (simp add: calculateRollingAggregation_def Let_def)
qed



text \<open>The run behind the witness: one window, holding the single valid sample at 60.\<close>

lemma example_single_window:
  "calculateRollingAggregation
        [\<lparr>timestamp = 60, pointValue = Number 20\<rparr>,
         \<lparr>timestamp = 0, pointValue = Number 10\<rparr>,
         \<lparr>timestamp = 120, pointValue = Null\<rparr>] 120 60 ''avg'' True
      = Inr [\<lparr>wp_timestamp = 120, wp_value = 20, windowStart = 0, windowEnd = 120,
               dataPointsInWindow = 1\<rparr>]"
  by (simp add: calculateRollingAggregation_def validAggregations_def rollingLoop.simps
        rollingStep_def pointsInWindow_def sparseWindow_def aggregateValues_def
        List.map_filter_def Let_def)

subsection \<open>The sparse-window policy\<close>

lemma rollingLoop_complete:
  assumes "rollingLoop sd w s aggregation d lastT t = Inr out" and "0 < s"
    and "t + real k * s \<le> lastT"
    and "rollingStep sd w aggregation d (t + real k * s) = Inr (Some p)"
  shows "p \<in> set out"
  using assms
proof (induction k arbitrary: t out)
  case 0
  then show ?case
    by (subst (asm) rollingLoop.simps) (auto split: sum.splits if_splits)
next
  case (Suc k)
  have "t \<le> t + real (Suc k) * s" using Suc.prems(2) by simp
  with Suc.prems(3) have tl: "t \<le> lastT" by linarith
  from Suc.prems(1,2) tl obtain r rest where
      rest: "rollingLoop sd w s aggregation d lastT (t + s) = Inr rest" and
      out: "out = (case r of None \<Rightarrow> rest | Some q \<Rightarrow> q # rest)"
    by (subst (asm) rollingLoop.simps) (auto split: sum.splits)
  have e: "t + s + real k * s = t + real (Suc k) * s" by (simp add: algebra_simps)
  have "p \<in> set rest"
    using Suc.IH[OF rest Suc.prems(2)] Suc.prems(3,4) unfolding e by blast
  with out show ?case by (auto split: option.splits)
qed

lemma pointsInWindow_sort:
  "pointsInWindow (sort_key timestamp dps) a b
     = sort_key timestamp (filter (\<lambda>p. a < timestamp p \<and> timestamp p \<le> b) dps)"
  by (simp add: pointsInWindow_def filter_sort)

lemma sparseWindow_sorted:
  assumes "ps \<noteq> []"
  shows "sparseWindow (sort_key timestamp ps) a b
           \<longleftrightarrow> (Max (timestamp ` set ps) - Min (timestamp ` set ps) < 0.25 * (b - a)
                \<and> length ps < 3)"
proof -
  let ?sd = "sort_key timestamp ps"
  have ne: "?sd \<noteq> []" using assms by (metis length_sort length_0_conv)
  have srt: "sorted (map timestamp ?sd)" by simp
  have f: "timestamp (?sd ! 0) = Min (timestamp ` set ps)"
    using sorted_first_Min[OF ne srt] by simp
  have l: "timestamp (?sd ! (length ps - Suc 0)) = Max (timestamp ` set ps)"
    using sorted_last_Max[OF ne srt] by simp
  show ?thesis by (simp add: sparseWindow_def Let_def f l mult.commute)
qed

text \<open>
  Claim C2, as amended.  With \<open>discardIncompleteWindows\<close> set, take a cursor position
  \<open>t\<close> whose window \<open>(t - windowSizeMs, t]\<close> holds at least one valid sample.  No point
  is emitted at \<open>t\<close> exactly when the samples collected in the window, counted before
  the null, undefined and NaN values are dropped, span less than 25% of the window and
  number fewer than 3.
\<close>

theorem sparse_window_policy:
  assumes "0 < windowSizeMs" and "0 < stepSizeMs"
    and "aggregation \<in> set validAggregations"
    and "calculateRollingAggregation dataPoints windowSizeMs stepSizeMs aggregation True
           = Inr out"
    and "t = Min (timestamp ` set dataPoints) + windowSizeMs + real k * stepSizeMs"
    and "t \<le> Max (timestamp ` set dataPoints)"
    and "collected = filter (\<lambda>p. t - windowSizeMs < timestamp p \<and> timestamp p \<le> t)
                       dataPoints"
    and "\<exists>p \<in> set collected. numericValue (pointValue p) \<noteq> None"
  shows "t \<notin> wp_timestamp ` set out
           \<longleftrightarrow> (Max (timestamp ` set collected) - Min (timestamp ` set collected)
                   < 0.25 * windowSizeMs
                \<and> length collected < 3)"
proof -
  let ?sd = "sort_key timestamp dataPoints"
  let ?wp = "pointsInWindow ?sd (t - windowSizeMs) t"
  have cne: "collected \<noteq> []" using assms(8) by auto
  then have dne: "dataPoints \<noteq> []" using assms(7) by auto
  have wp: "?wp = sort_key timestamp collected"
    by (simp add: pointsInWindow_sort assms(7))
  have wne: "?wp \<noteq> []" unfolding wp using cne by (metis length_sort length_0_conv)
  have sp: "sparseWindow ?wp (t - windowSizeMs) t
        \<longleftrightarrow> (Max (timestamp ` set collected) - Min (timestamp ` set collected)
                   < 0.25 * windowSizeMs \<and> length collected < 3)"
    unfolding wp using sparseWindow_sorted[OF cne, of "t - windowSizeMs" t] by simp
  have vne: "List.map_filter numericValue (map pointValue ?wp) \<noteq> []"
  proof -
    from assms(8) obtain p where "p \<in> set collected" "numericValue (pointValue p) \<noteq> None"
      by blast
    then have "p \<in> set ?wp" unfolding wp by simp
    with \<open>numericValue (pointValue p) \<noteq> None\<close>
    have "the (numericValue (pointValue p))
            \<in> set (List.map_filter numericValue (map pointValue ?wp))"
      by (force simp: List.map_filter_def)
    then show ?thesis by auto
  qed
  obtain v where v: "aggregateValues aggregation
                       (List.map_filter numericValue (map pointValue ?wp)) = Inr v"
    using aggregateValues_valid[OF assms(3)] by blast
  have step: "rollingStep ?sd windowSizeMs aggregation True t = Inr None
                \<longleftrightarrow> sparseWindow ?wp (t - windowSizeMs) t"
    using wne vne v by (simp add: rollingStep_def Let_def)
  have stepS: "\<exists>r. rollingStep ?sd windowSizeMs aggregation True t = Inr r"
    using rollingStep_valid[OF assms(3)] by blast
  have loop: "rollingLoop ?sd windowSizeMs stepSizeMs aggregation True
                (Max (timestamp ` set dataPoints))
                (Min (timestamp ` set dataPoints) + windowSizeMs) = Inr out"
    using calculateRollingAggregation_loop[OF assms(1,2,3) dne, of True] assms(4) by simp
  have "t \<in> wp_timestamp ` set out
          \<longleftrightarrow> (\<exists>p. rollingStep ?sd windowSizeMs aggregation True t = Inr (Some p))"
  proof
    assume "t \<in> wp_timestamp ` set out"
    then obtain p where p: "p \<in> set out" "wp_timestamp p = t" by auto
    from rollingLoop_points[OF loop p(1)] obtain j :: nat where
      j: "rollingStep ?sd windowSizeMs aggregation True
            (Min (timestamp ` set dataPoints) + windowSizeMs + real j * stepSizeMs)
          = Inr (Some p)" by blast
    from rollingStep_Some[OF j] p(2)
    have "Min (timestamp ` set dataPoints) + windowSizeMs + real j * stepSizeMs = t" by simp
    with j show "\<exists>p. rollingStep ?sd windowSizeMs aggregation True t = Inr (Some p)"
      by auto
  next
    assume "\<exists>p. rollingStep ?sd windowSizeMs aggregation True t = Inr (Some p)"
    then obtain p where p: "rollingStep ?sd windowSizeMs aggregation True t = Inr (Some p)"
      by blast
    have "p \<in> set out"
      using rollingLoop_complete[OF loop assms(2), of k p] p assms(5,6) by simp
    moreover have "wp_timestamp p = t" using rollingStep_Some[OF p] by simp
    ultimately show "t \<in> wp_timestamp ` set out" by force
  qed
  with step stepS sp show ?thesis
    by (metis Inr_inject not_None_eq option.distinct(1))
qed

theorem sparse_window_policy_witness:
  "(0::real) < 100 \<and> ''avg'' \<in> set validAggregations
   \<and> calculateRollingAggregation
      [\<lparr>timestamp = 0, pointValue = Number 1\<rparr>,
       \<lparr>timestamp = 10, pointValue = Null\<rparr>,
       \<lparr>timestamp = 100, pointValue = Number 5\<rparr>] 100 100 ''avg'' True
     = Inr [\<lparr>wp_timestamp = 100, wp_value = 5, windowStart = 0, windowEnd = 100,
              dataPointsInWindow = 1\<rparr>]
   \<and> (100::real) \<le> Max (timestamp ` set [\<lparr>timestamp = 0, pointValue = Number 1\<rparr>,
       \<lparr>timestamp = 10, pointValue = Null\<rparr>,
       \<lparr>timestamp = 100, pointValue = Number 5\<rparr>])
   \<and> (\<exists>p \<in> set [\<lparr>timestamp = 10, pointValue = Null\<rparr>,
                   \<lparr>timestamp = 100, pointValue = Number 5\<rparr>].
          numericValue (pointValue p) \<noteq> None)
   \<and> ((100::real) \<notin> wp_timestamp `
          set [\<lparr>wp_timestamp = 100, wp_value = 5, windowStart = 0, windowEnd = 100,
              dataPointsInWindow = 1\<rparr>]
        \<longleftrightarrow> (Max (timestamp ` set [\<lparr>timestamp = 10, pointValue = Null\<rparr>,
                   \<lparr>timestamp = 100, pointValue = Number 5\<rparr>])
             - Min (timestamp ` set [\<lparr>timestamp = 10, pointValue = Null\<rparr>,
                   \<lparr>timestamp = 100, pointValue = Number 5\<rparr>]) < 0.25 * 100
             \<and> length [\<lparr>timestamp = 10, pointValue = Null\<rparr>,
                   \<lparr>timestamp = 100, pointValue = Number 5\<rparr>] < 3))"
proof -
  let ?dps = "[\<lparr>timestamp = 0, pointValue = Number 1\<rparr>,
       \<lparr>timestamp = 10, pointValue = Null\<rparr>,
       \<lparr>timestamp = 100, pointValue = Number 5\<rparr>]"
  let ?col = "[\<lparr>timestamp = 10, pointValue = Null\<rparr>,
                   \<lparr>timestamp = 100, pointValue = Number 5\<rparr>]"
  let ?out = "[\<lparr>wp_timestamp = 100, wp_value = 5, windowStart = 0, windowEnd = 100,
              dataPointsInWindow = 1\<rparr>]"
  have h1: "(0::real) < 100" by simp
  have h3: "''avg'' \<in> set validAggregations" by (simp add: validAggregations_def)
  have h4: "calculateRollingAggregation ?dps 100 100 ''avg'' True = Inr ?out"
    by (simp add: calculateRollingAggregation_def validAggregations_def rollingLoop.simps
          rollingStep_def pointsInWindow_def sparseWindow_def aggregateValues_def
          List.map_filter_def Let_def)
  have h5: "(100::real) = Min (timestamp ` set ?dps) + 100 + real (0::nat) * 100" by simp
  have h6: "(100::real) \<le> Max (timestamp ` set ?dps)" by simp
  have h7: "?col = filter (\<lambda>p. 100 - 100 < timestamp p \<and> timestamp p \<le> 100) ?dps" by simp
  have h8: "\<exists>p \<in> set ?col. numericValue (pointValue p) \<noteq> None" by simp
  note r = sparse_window_policy[OF h1 h1 h3 h4 h5 h6 h7 h8]
  show ?thesis
    apply (intro conjI)
         apply (rule h1)
        apply (rule h3)
       apply (rule h4)
      apply (rule h6)
     apply (rule h8)
    apply (rule r)
    done
qed

text \<open>
  Claim C2 as stated measures the samples after the invalid values are dropped.  Here
  the window \<open>(0, 100]\<close> collects a null sample at 10 and a valid one at 100: the valid
  samples span 0 and number 1, so the stated policy skips the window, yet the collected
  samples span 90 and the code emits the point.
\<close>

theorem sparse_window_policy_counterexample:
  "calculateRollingAggregation
      [\<lparr>timestamp = 0, pointValue = Number 1\<rparr>,
       \<lparr>timestamp = 10, pointValue = Null\<rparr>,
       \<lparr>timestamp = 100, pointValue = Number 5\<rparr>] 100 100 ''avg'' True
     = Inr [\<lparr>wp_timestamp = 100, wp_value = 5, windowStart = 0, windowEnd = 100,
              dataPointsInWindow = 1\<rparr>]
   \<and> specSparseAfterDrop
        (pointsInWindow
           (sort_key timestamp
              [\<lparr>timestamp = 0, pointValue = Number 1\<rparr>,
               \<lparr>timestamp = 10, pointValue = Null\<rparr>,
               \<lparr>timestamp = 100, pointValue = Number 5\<rparr>]) 0 100) 0 100"
  by (simp add: calculateRollingAggregation_def validAggregations_def rollingLoop.simps
          rollingStep_def pointsInWindow_def sparseWindow_def aggregateValues_def
          List.map_filter_def Let_def specSparseAfterDrop_def)

subsection \<open>Order invariance\<close>

lemma map_sort_key_mset:
  assumes "mset xs = mset ys"
  shows "map f (sort_key f xs) = map f (sort_key f ys)"
proof -
  have a: "sort (map f xs) = map f (sort_key f xs)"
    by (rule properties_for_sort) simp_all
  have b: "sort (map f xs) = map f (sort_key f ys)"
  proof (rule properties_for_sort)
    have "mset (map f (sort_key f ys)) = image_mset f (mset ys)" by simp
    also have "\<dots> = image_mset f (mset xs)" using assms by simp
    finally show "mset (map f (sort_key f ys)) = mset (map f xs)" by simp
    show "sorted (map f (sort_key f ys))" by simp
  qed
  from a b show ?thesis by simp
qed

text \<open>The kinds whose result does not depend on the order of the values.\<close>

lemma aggregateValues_mset:
  assumes "mset vs = mset ws" and "aggregation \<in> {''min'', ''max'', ''count''}"
  shows "aggregateValues aggregation vs = aggregateValues aggregation ws"
proof -
  have l: "length vs = length ws" using assms(1) by (rule mset_eq_length)
  have t: "set vs = set ws" using assms(1) by (rule mset_eq_setD)
  show ?thesis using assms(2) by (auto simp add: aggregateValues_def l t)
qed

lemma aggregateValues_error:
  "rel_sum (=) (\<lambda>v v'. True) (aggregateValues aggregation vs) (aggregateValues aggregation ws)"
  by (simp add: aggregateValues_def)

text \<open>
  One step on two permutations of the same samples: the same outcome, up to a relation
  \<open>V\<close> between the two values that the aggregation kind guarantees.
\<close>

lemma rollingStep_rel:
  assumes "mset xs = mset ys"
    and ag: "\<And>vs ws. mset vs = mset ws
               \<Longrightarrow> rel_sum (=) V (aggregateValues aggregation vs) (aggregateValues aggregation ws)"
  shows "rel_sum (=) (rel_option (\<lambda>p q. windowShape p = windowShape q
                                      \<and> V (wp_value p) (wp_value q)))
           (rollingStep (sort_key timestamp xs) w aggregation d t)
           (rollingStep (sort_key timestamp ys) w aggregation d t)"
proof -
  define wa where "wa = sort_key timestamp (filter (\<lambda>p. t - w < timestamp p \<and> timestamp p \<le> t) xs)"
  define wb where "wb = sort_key timestamp (filter (\<lambda>p. t - w < timestamp p \<and> timestamp p \<le> t) ys)"
  define va where "va = List.map_filter numericValue (map pointValue wa)"
  define vb where "vb = List.map_filter numericValue (map pointValue wb)"
  have m: "mset (filter (\<lambda>p. t - w < timestamp p \<and> timestamp p \<le> t) xs)
         = mset (filter (\<lambda>p. t - w < timestamp p \<and> timestamp p \<le> t) ys)"
    using assms(1) by simp
  have wa: "pointsInWindow (sort_key timestamp xs) (t - w) t = wa"
    unfolding wa_def by (rule pointsInWindow_sort)
  have wb: "pointsInWindow (sort_key timestamp ys) (t - w) t = wb"
    unfolding wb_def by (rule pointsInWindow_sort)
  have ts: "map timestamp wa = map timestamp wb"
    unfolding wa_def wb_def using m by (rule map_sort_key_mset)
  have len: "length wa = length wb" using ts by (rule map_eq_imp_length_eq)
  have nth: "timestamp (wa ! i) = timestamp (wb ! i)" if "i < length wa" for i
  proof -
    have "map timestamp wa ! i = map timestamp wb ! i" using ts by simp
    then show ?thesis using that len by simp
  qed
  have sp: "sparseWindow wa (t - w) t = sparseWindow wb (t - w) t" if "wa \<noteq> []"
  proof -
    have "0 < length wa" using that by simp
    then have "timestamp (wa ! 0) = timestamp (wb ! 0)"
      "timestamp (wa ! (length wa - 1)) = timestamp (wb ! (length wa - 1))"
      by (simp_all add: nth)
    then show ?thesis unfolding sparseWindow_def Let_def len[symmetric] by simp
  qed
  have mw: "mset wa = mset wb" unfolding wa_def wb_def using m by simp
  have mv: "mset va = mset vb"
    unfolding va_def vb_def List.map_filter_def mset_map mset_filter mw ..
  have lv: "length va = length vb" using mv by (rule mset_eq_length)
  have av: "rel_sum (=) V (aggregateValues aggregation va) (aggregateValues aggregation vb)"
    using mv by (rule ag)
  have sa: "rollingStep (sort_key timestamp xs) w aggregation d t =
     (if length wa = 0 then Inr None
      else if d \<and> length wa > 0 \<and> sparseWindow wa (t - w) t then Inr None
      else if length va = 0 then Inr None
      else case aggregateValues aggregation va of
             Inl e \<Rightarrow> Inl e
           | Inr aggregatedValue \<Rightarrow>
               Inr (Some \<lparr> wp_timestamp = t, wp_value = aggregatedValue,
                           windowStart = t - w, windowEnd = t,
                           dataPointsInWindow = length va \<rparr>))"
    unfolding rollingStep_def Let_def wa va_def ..
  have sb: "rollingStep (sort_key timestamp ys) w aggregation d t =
     (if length wb = 0 then Inr None
      else if d \<and> length wb > 0 \<and> sparseWindow wb (t - w) t then Inr None
      else if length vb = 0 then Inr None
      else case aggregateValues aggregation vb of
             Inl e \<Rightarrow> Inl e
           | Inr aggregatedValue \<Rightarrow>
               Inr (Some \<lparr> wp_timestamp = t, wp_value = aggregatedValue,
                           windowStart = t - w, windowEnd = t,
                           dataPointsInWindow = length vb \<rparr>))"
    unfolding rollingStep_def Let_def wb vb_def ..
  show ?thesis
  proof (cases "wa = []")
    case True
    with len have "wb = []" by simp
    with True show ?thesis unfolding sa sb by simp
  next
    case False
    with len have nb: "wb \<noteq> []" by auto
    note spe = sp[OF False]
    show ?thesis
    proof (cases "aggregateValues aggregation va")
      case (Inl e)
      with av have "aggregateValues aggregation vb = Inl e"
        by (cases "aggregateValues aggregation vb") simp_all
      with Inl show ?thesis
        unfolding sa sb using False nb spe lv by simp
    next
      case (Inr v)
      with av obtain v' where v': "aggregateValues aggregation vb = Inr v'" "V v v'"
        by (cases "aggregateValues aggregation vb") simp_all
      with Inr show ?thesis
        unfolding sa sb using False nb spe lv by (simp add: windowShape_def)
    qed
  qed
qed

lemma rollingLoop_rel:
  assumes "\<And>u. rel_sum (=) (rel_option R) (rollingStep sd w aggregation d u)
                  (rollingStep sd' w aggregation d u)"
  shows "rel_sum (=) (list_all2 R) (rollingLoop sd w s aggregation d lastT t)
           (rollingLoop sd' w s aggregation d lastT t)"
  using assms
proof (induction sd w s aggregation d lastT t rule: rollingLoop.induct)
  case (1 sd w s aggregation d lastT t)
  show ?case
  proof (cases "0 < s \<and> t \<le> lastT")
    case True
    note st = "1.prems"[of t]
    show ?thesis
    proof (cases "rollingStep sd w aggregation d t")
      case (Inl e)
      with st have "rollingStep sd' w aggregation d t = Inl e"
        by (cases "rollingStep sd' w aggregation d t") simp_all
      with True Inl show ?thesis
        by (subst rollingLoop.simps, subst (2) rollingLoop.simps) simp
    next
      case (Inr r)
      with st obtain r' where r': "rollingStep sd' w aggregation d t = Inr r'"
        "rel_option R r r'"
        by (cases "rollingStep sd' w aggregation d t") simp_all
      have ih: "rel_sum (=) (list_all2 R) (rollingLoop sd w s aggregation d lastT (t + s))
              (rollingLoop sd' w s aggregation d lastT (t + s))"
        using "1.IH"[OF True Inr] "1.prems" by blast
      show ?thesis
      proof (cases "rollingLoop sd w s aggregation d lastT (t + s)")
        case (Inl e)
        with ih have "rollingLoop sd' w s aggregation d lastT (t + s) = Inl e"
          by (cases "rollingLoop sd' w s aggregation d lastT (t + s)") simp_all
        with True Inr r' Inl show ?thesis
          by (subst rollingLoop.simps, subst (2) rollingLoop.simps) simp
      next
        case rest: (Inr rest)
        with ih obtain rest' where rest':
          "rollingLoop sd' w s aggregation d lastT (t + s) = Inr rest'" "list_all2 R rest rest'"
          by (cases "rollingLoop sd' w s aggregation d lastT (t + s)") simp_all
        have "list_all2 R (case r of None \<Rightarrow> rest | Some p \<Rightarrow> p # rest)
                (case r' of None \<Rightarrow> rest' | Some p \<Rightarrow> p # rest')"
          using r'(2) rest'(2) by (cases r; cases r') simp_all
        with True Inr r'(1) rest rest'(1) show ?thesis
          by (subst rollingLoop.simps, subst (2) rollingLoop.simps) simp
      qed
    qed
  next
    case False
    then show ?thesis
      by (subst rollingLoop.simps, subst (2) rollingLoop.simps) auto
  qed
qed

lemma calculateRollingAggregation_rel:
  assumes "mset xs = mset ys"
    and ag: "\<And>vs ws. mset vs = mset ws
               \<Longrightarrow> rel_sum (=) V (aggregateValues aggregation vs) (aggregateValues aggregation ws)"
  shows "rel_sum (=) (list_all2 (\<lambda>p q. windowShape p = windowShape q
                                    \<and> V (wp_value p) (wp_value q)))
           (calculateRollingAggregation xs w s aggregation d)
           (calculateRollingAggregation ys w s aggregation d)"
proof (cases "0 < w \<and> 0 < s \<and> aggregation \<in> set validAggregations \<and> xs \<noteq> []")
  case True
  then have ne: "ys \<noteq> []" using assms(1) by auto
  have st: "set xs = set ys" using assms(1) by (rule mset_eq_setD)
  from True have p: "0 < w" "0 < s" "aggregation \<in> set validAggregations" "xs \<noteq> []"
    by simp_all
  have loop: "rel_sum (=) (list_all2 (\<lambda>p q. windowShape p = windowShape q
                                    \<and> V (wp_value p) (wp_value q)))
          (rollingLoop (sort_key timestamp xs) w s aggregation d lastT t)
          (rollingLoop (sort_key timestamp ys) w s aggregation d lastT t)" for lastT t
    by (rule rollingLoop_rel) (rule rollingStep_rel[OF assms(1) ag])
  show ?thesis
    unfolding calculateRollingAggregation_loop[OF p]
      calculateRollingAggregation_loop[OF p(1,2,3) ne] st
    by (rule loop)
next
  case False
  have "xs = [] \<longleftrightarrow> ys = []" using assms(1) by auto
  with False show ?thesis
    by (auto simp: calculateRollingAggregation_def)
qed

lemma same_windows:
  assumes "rel_sum (=) (list_all2 (\<lambda>p q. windowShape p = windowShape q \<and> V (wp_value p) (wp_value q)))
             a b"
  shows "map_sum id (map windowShape) a = map_sum id (map windowShape) b"
proof -
  have "map windowShape ps = map windowShape qs"
    if "list_all2 (\<lambda>p q. windowShape p = windowShape q \<and> V (wp_value p) (wp_value q)) ps qs"
    for ps qs
    using that by (induction rule: list_all2_induct) simp_all
  with assms show ?thesis by (cases a; cases b) simp_all
qed

lemma same_points:
  assumes "rel_sum (=) (list_all2 (\<lambda>p q. windowShape p = windowShape q \<and> wp_value p = wp_value q))
             a b"
  shows "a = b"
proof -
  have "ps = qs"
    if "list_all2 (\<lambda>p q. windowShape p = windowShape q \<and> wp_value p = wp_value q) ps qs"
    for ps qs :: "windowPoint list"
    using that by (induction rule: list_all2_induct) (simp_all add: windowShape_def)
  with assms show ?thesis by (cases a; cases b) simp_all
qed

text \<open>Samples with equal timestamps in the same relative order sort to the same list.\<close>

lemma sort_key_same_order:
  assumes "mset ys = mset xs"
    and "\<And>t. filter (\<lambda>p. f p = t) ys = filter (\<lambda>p. f p = t) xs"
  shows "sort_key f ys = sort_key f xs"
proof (rule properties_for_sort_key)
  show "mset (sort_key f xs) = mset ys" using assms(1) by simp
  show "sorted (map f (sort_key f xs))" by simp
  fix k assume "k \<in> set (sort_key f xs)"
  have e: "(\<lambda>x. f k = f x) = (\<lambda>x. f x = f k)" by auto
  show "filter (\<lambda>x. f k = f x) (sort_key f xs) = filter (\<lambda>x. f k = f x) ys"
    unfolding e by (simp only: sort_key_stable assms(2))
qed

lemma distinct_filter_key:
  assumes "mset ys = mset xs" and "distinct (map f xs)"
  shows "filter (\<lambda>p. f p = t) ys = filter (\<lambda>p. f p = t) xs"
proof -
  define A where "A = filter (\<lambda>p. f p = t) xs"
  define B where "B = filter (\<lambda>p. f p = t) ys"
  have m: "mset B = mset A" unfolding A_def B_def using assms(1) by simp
  have "distinct (map f A)" unfolding A_def using assms(2) by (rule distinct_map_filter)
  then have "card (set (map f A)) = length (map f A)" by (rule distinct_card)
  moreover have "card (set (map f A)) \<le> card {t}"
    unfolding A_def by (rule card_mono) auto
  ultimately have "length A \<le> 1" by simp
  then consider "A = []" | a where "A = [a]"
    by (cases A) (auto simp: Suc_le_eq)
  then have "B = A"
  proof cases
    case 1
    with m show ?thesis by simp
  next
    case 2
    with m show ?thesis by simp
  qed
  then show ?thesis unfolding A_def B_def .
qed

lemma calculateRollingAggregation_sorted_cong:
  assumes "sort_key timestamp ys = sort_key timestamp xs"
  shows "calculateRollingAggregation ys w s aggregation d
           = calculateRollingAggregation xs w s aggregation d"
proof -
  have "length (sort_key timestamp ys) = length (sort_key timestamp xs)"
    using assms by simp
  then have "length ys = length xs" by simp
  then show ?thesis by (simp add: calculateRollingAggregation_def assms)
qed

text \<open>
  Claim C3, as amended.  Two sample lists that are permutations of each other (equal as
  multisets, so duplicate timestamps and any input order are covered) give, for the same
  window size, step size, aggregation kind and completeness flag, the same error or the
  same windows: the same cursor positions, bounds and sample counts, in the same order.
  The values of the windows are the same too for the kinds \<open>min\<close>, \<open>max\<close> and \<open>count\<close>,
  and for \<open>avg\<close> and \<open>sum\<close> whenever the samples that share a timestamp keep their
  relative order, in particular when the timestamps are distinct.
\<close>

theorem order_invariance:
  assumes "mset shuffled = mset dataPoints"
  shows "map_sum id (map windowShape)
           (calculateRollingAggregation shuffled windowSizeMs stepSizeMs aggregation
              discardIncompleteWindows)
         = map_sum id (map windowShape)
             (calculateRollingAggregation dataPoints windowSizeMs stepSizeMs aggregation
                discardIncompleteWindows)
       \<and> (aggregation \<in> {''min'', ''max'', ''count''}
            \<longrightarrow> calculateRollingAggregation shuffled windowSizeMs stepSizeMs aggregation
                  discardIncompleteWindows
                = calculateRollingAggregation dataPoints windowSizeMs stepSizeMs aggregation
                    discardIncompleteWindows)
       \<and> ((\<forall>t. filter (\<lambda>p. timestamp p = t) shuffled
                 = filter (\<lambda>p. timestamp p = t) dataPoints)
            \<longrightarrow> calculateRollingAggregation shuffled windowSizeMs stepSizeMs aggregation
                  discardIncompleteWindows
                = calculateRollingAggregation dataPoints windowSizeMs stepSizeMs aggregation
                    discardIncompleteWindows)
       \<and> (distinct (map timestamp dataPoints)
            \<longrightarrow> calculateRollingAggregation shuffled windowSizeMs stepSizeMs aggregation
                  discardIncompleteWindows
                = calculateRollingAggregation dataPoints windowSizeMs stepSizeMs aggregation
                    discardIncompleteWindows)"
proof -
  let ?a = "calculateRollingAggregation shuffled windowSizeMs stepSizeMs aggregation
              discardIncompleteWindows"
  let ?b = "calculateRollingAggregation dataPoints windowSizeMs stepSizeMs aggregation
              discardIncompleteWindows"
  have shape: "map_sum id (map windowShape) ?a = map_sum id (map windowShape) ?b"
    by (rule same_windows[where V = "\<lambda>v v'. True"],
        rule calculateRollingAggregation_rel[OF assms])
       (rule aggregateValues_error)
  have free: "?a = ?b" if k: "aggregation \<in> {''min'', ''max'', ''count''}"
  proof (rule same_points, rule calculateRollingAggregation_rel[OF assms])
    fix vs ws :: "real list"
    assume "mset vs = mset ws"
    then have "aggregateValues aggregation vs = aggregateValues aggregation ws"
      using k by (rule aggregateValues_mset)
    then show "rel_sum (=) (=) (aggregateValues aggregation vs) (aggregateValues aggregation ws)"
      by (simp add: sum.rel_eq)
  qed
  have order: "?a = ?b"
    if "\<forall>t. filter (\<lambda>p. timestamp p = t) shuffled = filter (\<lambda>p. timestamp p = t) dataPoints"
    by (rule calculateRollingAggregation_sorted_cong, rule sort_key_same_order[OF assms])
       (simp add: that)
  have dist: "?a = ?b" if "distinct (map timestamp dataPoints)"
    by (rule order) (simp add: distinct_filter_key[OF assms that])
  show ?thesis
    using shape free order dist by blast
qed

theorem order_invariance_witness:
  "mset [\<lparr>timestamp = 0, pointValue = Number 10000000000000000\<rparr>,
         \<lparr>timestamp = 0, pointValue = Number (- 10000000000000000)\<rparr>,
         \<lparr>timestamp = 0, pointValue = Number 1\<rparr>]
   = mset [\<lparr>timestamp = 0, pointValue = Number 10000000000000000\<rparr>,
         \<lparr>timestamp = 0, pointValue = Number 1\<rparr>,
         \<lparr>timestamp = 0, pointValue = Number (- 10000000000000000)\<rparr>]
   \<and> map_sum id (map windowShape)
        (calculateRollingAggregation
           [\<lparr>timestamp = 0, pointValue = Number 10000000000000000\<rparr>,
            \<lparr>timestamp = 0, pointValue = Number (- 10000000000000000)\<rparr>,
            \<lparr>timestamp = 0, pointValue = Number 1\<rparr>] 1 1 ''sum'' False)
     = map_sum id (map windowShape)
        (calculateRollingAggregation
           [\<lparr>timestamp = 0, pointValue = Number 10000000000000000\<rparr>,
            \<lparr>timestamp = 0, pointValue = Number 1\<rparr>,
            \<lparr>timestamp = 0, pointValue = Number (- 10000000000000000)\<rparr>] 1 1 ''sum'' False)
   \<and> ''max'' \<in> {''min'', ''max'', ''count''}
   \<and> calculateRollingAggregation
        [\<lparr>timestamp = 0, pointValue = Number 10000000000000000\<rparr>,
         \<lparr>timestamp = 0, pointValue = Number (- 10000000000000000)\<rparr>,
         \<lparr>timestamp = 0, pointValue = Number 1\<rparr>] 1 1 ''max'' False
     = calculateRollingAggregation
        [\<lparr>timestamp = 0, pointValue = Number 10000000000000000\<rparr>,
         \<lparr>timestamp = 0, pointValue = Number 1\<rparr>,
         \<lparr>timestamp = 0, pointValue = Number (- 10000000000000000)\<rparr>] 1 1 ''max'' False
   \<and> mset [\<lparr>timestamp = 60, pointValue = Number 20\<rparr>,
           \<lparr>timestamp = 60, pointValue = Number 40\<rparr>,
           \<lparr>timestamp = 0, pointValue = Number 10\<rparr>]
     = mset [\<lparr>timestamp = 60, pointValue = Number 20\<rparr>,
           \<lparr>timestamp = 0, pointValue = Number 10\<rparr>,
           \<lparr>timestamp = 60, pointValue = Number 40\<rparr>]
   \<and> (\<forall>t. filter (\<lambda>p. timestamp p = t)
              [\<lparr>timestamp = 60, pointValue = Number 20\<rparr>,
               \<lparr>timestamp = 60, pointValue = Number 40\<rparr>,
               \<lparr>timestamp = 0, pointValue = Number 10\<rparr>]
          = filter (\<lambda>p. timestamp p = t)
              [\<lparr>timestamp = 60, pointValue = Number 20\<rparr>,
               \<lparr>timestamp = 0, pointValue = Number 10\<rparr>,
               \<lparr>timestamp = 60, pointValue = Number 40\<rparr>])
   \<and> calculateRollingAggregation
        [\<lparr>timestamp = 60, pointValue = Number 20\<rparr>,
         \<lparr>timestamp = 60, pointValue = Number 40\<rparr>,
         \<lparr>timestamp = 0, pointValue = Number 10\<rparr>] 60 30 ''sum'' False
     = calculateRollingAggregation
        [\<lparr>timestamp = 60, pointValue = Number 20\<rparr>,
         \<lparr>timestamp = 0, pointValue = Number 10\<rparr>,
         \<lparr>timestamp = 60, pointValue = Number 40\<rparr>] 60 30 ''sum'' False
   \<and> mset [\<lparr>timestamp = 60, pointValue = Number 20\<rparr>,
           \<lparr>timestamp = 30, pointValue = Number 40\<rparr>,
           \<lparr>timestamp = 0, pointValue = Number 10\<rparr>]
     = mset [\<lparr>timestamp = 0, pointValue = Number 10\<rparr>,
           \<lparr>timestamp = 30, pointValue = Number 40\<rparr>,
           \<lparr>timestamp = 60, pointValue = Number 20\<rparr>]
   \<and> distinct (map timestamp
        [\<lparr>timestamp = 0, pointValue = Number 10\<rparr>,
         \<lparr>timestamp = 30, pointValue = Number 40\<rparr>,
         \<lparr>timestamp = 60, pointValue = Number 20\<rparr>])
   \<and> calculateRollingAggregation
        [\<lparr>timestamp = 60, pointValue = Number 20\<rparr>,
         \<lparr>timestamp = 30, pointValue = Number 40\<rparr>,
         \<lparr>timestamp = 0, pointValue = Number 10\<rparr>] 60 30 ''avg'' True
     = calculateRollingAggregation
        [\<lparr>timestamp = 0, pointValue = Number 10\<rparr>,
         \<lparr>timestamp = 30, pointValue = Number 40\<rparr>,
         \<lparr>timestamp = 60, pointValue = Number 20\<rparr>] 60 30 ''avg'' True"
proof -
  let ?big = "[\<lparr>timestamp = 0, pointValue = Number 10000000000000000\<rparr>,
            \<lparr>timestamp = 0, pointValue = Number 1\<rparr>,
            \<lparr>timestamp = 0, pointValue = Number (- 10000000000000000)\<rparr>]"
  let ?bigs = "[\<lparr>timestamp = 0, pointValue = Number 10000000000000000\<rparr>,
            \<lparr>timestamp = 0, pointValue = Number (- 10000000000000000)\<rparr>,
            \<lparr>timestamp = 0, pointValue = Number 1\<rparr>]"
  let ?dup = "[\<lparr>timestamp = 60, pointValue = Number 20\<rparr>,
         \<lparr>timestamp = 0, pointValue = Number 10\<rparr>,
         \<lparr>timestamp = 60, pointValue = Number 40\<rparr>]"
  let ?dups = "[\<lparr>timestamp = 60, pointValue = Number 20\<rparr>,
         \<lparr>timestamp = 60, pointValue = Number 40\<rparr>,
         \<lparr>timestamp = 0, pointValue = Number 10\<rparr>]"
  let ?one = "[\<lparr>timestamp = 0, pointValue = Number 10\<rparr>,
         \<lparr>timestamp = 30, pointValue = Number 40\<rparr>,
         \<lparr>timestamp = 60, pointValue = Number 20\<rparr>]"
  let ?ones = "[\<lparr>timestamp = 60, pointValue = Number 20\<rparr>,
         \<lparr>timestamp = 30, pointValue = Number 40\<rparr>,
         \<lparr>timestamp = 0, pointValue = Number 10\<rparr>]"
  have h1: "mset ?bigs = mset ?big" by (simp add: add_mset_commute)
  have h2: "''max'' \<in> {''min'', ''max'', ''count''}" by simp
  have h3: "mset ?dups = mset ?dup" by (simp add: add_mset_commute)
  have h4: "\<forall>t. filter (\<lambda>p. timestamp p = t) ?dups = filter (\<lambda>p. timestamp p = t) ?dup"
    by simp
  have h5: "mset ?ones = mset ?one" by (simp add: add_mset_commute)
  have h6: "distinct (map timestamp ?one)" by simp
  note a = order_invariance[OF h1, of 1 1 "''sum''" False]
  note b = order_invariance[OF h1, of 1 1 "''max''" False]
  note c = order_invariance[OF h3, of 60 30 "''sum''" False]
  note d = order_invariance[OF h5, of 60 30 "''avg''" True]
  show ?thesis
    apply (intro conjI)
             apply (rule h1)
            apply (rule a[THEN conjunct1])
           apply (rule h2)
          apply (rule b[THEN conjunct2, THEN conjunct1, THEN mp, OF h2])
         apply (rule h3)
        apply (rule h4)
       apply (rule c[THEN conjunct2, THEN conjunct2, THEN conjunct1, THEN mp, OF h4])
      apply (rule h5)
     apply (rule h6)
    apply (rule d[THEN conjunct2, THEN conjunct2, THEN conjunct2, THEN mp, OF h6])
    done
qed

text \<open>The two runs behind the counterexample: one window over the three samples.\<close>

lemma big_sum_in_order:
  "calculateRollingAggregation
      [\<lparr>timestamp = 0, pointValue = Number 10000000000000000\<rparr>,
       \<lparr>timestamp = 0, pointValue = Number 1\<rparr>,
       \<lparr>timestamp = 0, pointValue = Number (- 10000000000000000)\<rparr>] 1 1 ''sum'' False
     = Inr [\<lparr>wp_timestamp = 0, wp_value = 0, windowStart = - 1, windowEnd = 0,
              dataPointsInWindow = 3\<rparr>]"
  by (simp add: calculateRollingAggregation_def validAggregations_def rollingLoop.simps
        rollingStep_def pointsInWindow_def sparseWindow_def aggregateValues_def
        List.map_filter_def Let_def roundDouble_ten_to_16 roundDouble_ten_to_16_plus_1)

lemma big_sum_reordered:
  "calculateRollingAggregation
      [\<lparr>timestamp = 0, pointValue = Number 10000000000000000\<rparr>,
       \<lparr>timestamp = 0, pointValue = Number (- 10000000000000000)\<rparr>,
       \<lparr>timestamp = 0, pointValue = Number 1\<rparr>] 1 1 ''sum'' False
     = Inr [\<lparr>wp_timestamp = 0, wp_value = 1, windowStart = - 1, windowEnd = 0,
              dataPointsInWindow = 3\<rparr>]"
  by (simp add: calculateRollingAggregation_def validAggregations_def rollingLoop.simps
        rollingStep_def pointsInWindow_def sparseWindow_def aggregateValues_def
        List.map_filter_def Let_def roundDouble_ten_to_16 roundDouble_ten_to_16_plus_1)

text \<open>
  Claim C3 as stated fails for a sum over samples that share a timestamp.  The three
  samples \<open>10\<^sup>1\<^sup>6\<close>, \<open>1\<close> and \<open>-10\<^sup>1\<^sup>6\<close>, all at time 0, fall in one window.  The sort
  is stable and keeps them in input order; \<open>10\<^sup>1\<^sup>6 + 1\<close> rounds to \<open>10\<^sup>1\<^sup>6\<close>, so the sum
  is 0 in this order and 1 when the last two samples are exchanged.
\<close>

theorem order_invariance_counterexample:
  "mset [\<lparr>timestamp = 0, pointValue = Number 10000000000000000\<rparr>,
         \<lparr>timestamp = 0, pointValue = Number (- 10000000000000000)\<rparr>,
         \<lparr>timestamp = 0, pointValue = Number 1\<rparr>]
   = mset [\<lparr>timestamp = 0, pointValue = Number 10000000000000000\<rparr>,
         \<lparr>timestamp = 0, pointValue = Number 1\<rparr>,
         \<lparr>timestamp = 0, pointValue = Number (- 10000000000000000)\<rparr>]
   \<and> calculateRollingAggregation
        [\<lparr>timestamp = 0, pointValue = Number 10000000000000000\<rparr>,
         \<lparr>timestamp = 0, pointValue = Number 1\<rparr>,
         \<lparr>timestamp = 0, pointValue = Number (- 10000000000000000)\<rparr>] 1 1 ''sum'' False
     = Inr [\<lparr>wp_timestamp = 0, wp_value = 0, windowStart = - 1, windowEnd = 0,
              dataPointsInWindow = 3\<rparr>]
   \<and> calculateRollingAggregation
        [\<lparr>timestamp = 0, pointValue = Number 10000000000000000\<rparr>,
         \<lparr>timestamp = 0, pointValue = Number (- 10000000000000000)\<rparr>,
         \<lparr>timestamp = 0, pointValue = Number 1\<rparr>] 1 1 ''sum'' False
     = Inr [\<lparr>wp_timestamp = 0, wp_value = 1, windowStart = - 1, windowEnd = 0,
              dataPointsInWindow = 3\<rparr>]"
  by (simp add: big_sum_in_order big_sum_reordered add_mset_commute)

section \<open>Statistics: percentiles\<close>

lemma floor_percent:
  "nat \<lfloor>real n * (real k / 100)\<rfloor> = (n * k) div 100"
proof -
  have "real n * (real k / 100) = real (n * k) / real 100" by simp
  then have "\<lfloor>real n * (real k / 100)\<rfloor> = \<lfloor>real (n * k) / real 100\<rfloor>" by simp
  also have "\<dots> = int ((n * k) div 100)" by (rule floor_divide_of_nat_eq)
  finally show ?thesis by simp
qed

lemma percent_index_in_range:
  assumes "0 < n" and "k < 100"
  shows "(n * k) div 100 < (n::nat)"
proof -
  have "n * k < n * 100" using assms by simp
  then show ?thesis by (simp add: less_mult_imp_div_less mult.commute)
qed

lemma percent_indices:
  "nat \<lfloor>real n * 0.05\<rfloor> = (n * 5) div 100"
  "nat \<lfloor>real n * 0.1\<rfloor> = (n * 10) div 100"
  "nat \<lfloor>real n * 0.5\<rfloor> = (n * 50) div 100"
  "nat \<lfloor>real n * 0.9\<rfloor> = (n * 90) div 100"
  "nat \<lfloor>real n * 0.95\<rfloor> = (n * 95) div 100"
  "nat \<lfloor>real n * 0.99\<rfloor> = (n * 99) div 100"
  using floor_percent[of n 5] floor_percent[of n 10] floor_percent[of n 50]
    floor_percent[of n 90] floor_percent[of n 95] floor_percent[of n 99]
  by simp_all

lemma sorted_one_to_hundred: "sort (map real [1..<101]) = map real [1..<101]"
proof (rule sorted_sort_id)
  show "sorted (map real [1..<101])"
    unfolding sorted_map by (rule sorted_wrt_mono_rel[OF _ sorted_upt]) simp
qed

text \<open>
  Claim C4.  For a non-empty list of \<open>n\<close> values each percentile field \<open>pN\<close> of the
  summary is the element of the ascending sort at the zero-based index \<open>floor(n * N)\<close>,
  an index that lies inside the list; nothing is interpolated.  For the values 1 to 100,
  \<open>p95\<close> is 96.
\<close>

theorem percentile_nearest_rank:
  "(vals \<noteq> [] \<longrightarrow>
      (\<exists>s. calculateStatistics vals = Some s
         \<and> p05 s = sort vals ! nat \<lfloor>real (length vals) * 0.05\<rfloor>
         \<and> p10 s = sort vals ! nat \<lfloor>real (length vals) * 0.1\<rfloor>
         \<and> p50 s = sort vals ! nat \<lfloor>real (length vals) * 0.5\<rfloor>
         \<and> p90 s = sort vals ! nat \<lfloor>real (length vals) * 0.9\<rfloor>
         \<and> p95 s = sort vals ! nat \<lfloor>real (length vals) * 0.95\<rfloor>
         \<and> p99 s = sort vals ! nat \<lfloor>real (length vals) * 0.99\<rfloor>
         \<and> nat \<lfloor>real (length vals) * 0.05\<rfloor> < length vals
         \<and> nat \<lfloor>real (length vals) * 0.1\<rfloor> < length vals
         \<and> nat \<lfloor>real (length vals) * 0.5\<rfloor> < length vals
         \<and> nat \<lfloor>real (length vals) * 0.9\<rfloor> < length vals
         \<and> nat \<lfloor>real (length vals) * 0.95\<rfloor> < length vals
         \<and> nat \<lfloor>real (length vals) * 0.99\<rfloor> < length vals))
   \<and> (\<exists>s. calculateStatistics (map real [1..<101]) = Some s \<and> p95 s = 96)"
proof (intro conjI impI)
  assume ne: "vals \<noteq> []"
  then have pos: "0 < length vals" by simp
  have r: "nat \<lfloor>real (length vals) * 0.05\<rfloor> < length vals"
    "nat \<lfloor>real (length vals) * 0.1\<rfloor> < length vals"
    "nat \<lfloor>real (length vals) * 0.5\<rfloor> < length vals"
    "nat \<lfloor>real (length vals) * 0.9\<rfloor> < length vals"
    "nat \<lfloor>real (length vals) * 0.95\<rfloor> < length vals"
    "nat \<lfloor>real (length vals) * 0.99\<rfloor> < length vals"
    unfolding percent_indices
    using percent_index_in_range[OF pos, of 5] percent_index_in_range[OF pos, of 10]
      percent_index_in_range[OF pos, of 50] percent_index_in_range[OF pos, of 90]
      percent_index_in_range[OF pos, of 95] percent_index_in_range[OF pos, of 99]
    by simp_all
  have "calculateStatistics vals \<noteq> None"
    using ne by (simp add: calculateStatistics_def Let_def)
  then obtain s where s: "calculateStatistics vals = Some s" by blast
  then have f: "p05 s = sort vals ! nat \<lfloor>real (length vals) * 0.05\<rfloor>"
    "p10 s = sort vals ! nat \<lfloor>real (length vals) * 0.1\<rfloor>"
    "p50 s = sort vals ! nat \<lfloor>real (length vals) * 0.5\<rfloor>"
    "p90 s = sort vals ! nat \<lfloor>real (length vals) * 0.9\<rfloor>"
    "p95 s = sort vals ! nat \<lfloor>real (length vals) * 0.95\<rfloor>"
    "p99 s = sort vals ! nat \<lfloor>real (length vals) * 0.99\<rfloor>"
    using ne by (auto simp: calculateStatistics_def Let_def)
  show "\<exists>s. calculateStatistics vals = Some s
         \<and> p05 s = sort vals ! nat \<lfloor>real (length vals) * 0.05\<rfloor>
         \<and> p10 s = sort vals ! nat \<lfloor>real (length vals) * 0.1\<rfloor>
         \<and> p50 s = sort vals ! nat \<lfloor>real (length vals) * 0.5\<rfloor>
         \<and> p90 s = sort vals ! nat \<lfloor>real (length vals) * 0.9\<rfloor>
         \<and> p95 s = sort vals ! nat \<lfloor>real (length vals) * 0.95\<rfloor>
         \<and> p99 s = sort vals ! nat \<lfloor>real (length vals) * 0.99\<rfloor>
         \<and> nat \<lfloor>real (length vals) * 0.05\<rfloor> < length vals
         \<and> nat \<lfloor>real (length vals) * 0.1\<rfloor> < length vals
         \<and> nat \<lfloor>real (length vals) * 0.5\<rfloor> < length vals
         \<and> nat \<lfloor>real (length vals) * 0.9\<rfloor> < length vals
         \<and> nat \<lfloor>real (length vals) * 0.95\<rfloor> < length vals
         \<and> nat \<lfloor>real (length vals) * 0.99\<rfloor> < length vals"
    using s f r by blast
next
  have "map real [1..<101] ! 95 = 96" by (simp del: upt_Suc)
  then show "\<exists>s. calculateStatistics (map real [1..<101]) = Some s \<and> p95 s = 96"
    unfolding calculateStatistics_def Let_def percent_indices sorted_one_to_hundred
    by (simp del: upt_Suc)
qed

theorem percentile_nearest_rank_witness:
  "[3, 1, 2 :: real] \<noteq> []
   \<and> (\<exists>s. calculateStatistics [3, 1, 2] = Some s
         \<and> p05 s = sort [3, 1, 2] ! nat \<lfloor>real (length [3, 1, 2 :: real]) * 0.05\<rfloor>
         \<and> p50 s = sort [3, 1, 2] ! nat \<lfloor>real (length [3, 1, 2 :: real]) * 0.5\<rfloor>
         \<and> p95 s = sort [3, 1, 2] ! nat \<lfloor>real (length [3, 1, 2 :: real]) * 0.95\<rfloor>
         \<and> nat \<lfloor>real (length [3, 1, 2 :: real]) * 0.95\<rfloor> < length [3, 1, 2 :: real])
   \<and> (\<exists>s. calculateStatistics [3, 1, 2] = Some s \<and> p50 s = 2 \<and> p95 s = 3)"
proof -
  have h: "[3, 1, 2 :: real] \<noteq> []" by simp
  from percentile_nearest_rank[of "[3, 1, 2]", THEN conjunct1, rule_format, OF h]
  obtain s where s: "calculateStatistics [3, 1, 2] = Some s"
    and a: "p05 s = sort [3, 1, 2] ! nat \<lfloor>real (length [3, 1, 2 :: real]) * 0.05\<rfloor>"
      "p50 s = sort [3, 1, 2] ! nat \<lfloor>real (length [3, 1, 2 :: real]) * 0.5\<rfloor>"
      "p95 s = sort [3, 1, 2] ! nat \<lfloor>real (length [3, 1, 2 :: real]) * 0.95\<rfloor>"
      "nat \<lfloor>real (length [3, 1, 2 :: real]) * 0.95\<rfloor> < length [3, 1, 2 :: real]"
    by blast
  have i: "nat \<lfloor>real (length [3, 1, 2 :: real]) * 0.5\<rfloor> = 1"
    "nat \<lfloor>real (length [3, 1, 2 :: real]) * 0.95\<rfloor> = 2"
    unfolding percent_indices by simp_all
  have v: "p50 s = 2" "p95 s = 3" using a(2,3) unfolding i by simp_all
  show ?thesis using h s a v by blast
qed

section \<open>The breach detector: properties\<close>

subsection \<open>The accumulator and the thresholds\<close>

lemma scanPoints_acc:
  "scanPoints h th pts cur acc
     = (fst (scanPoints h th pts cur []), acc @ snd (scanPoints h th pts cur []))"
proof (induction pts arbitrary: cur acc)
  case Nil
  show ?case by simp
next
  case (Cons p rest)
  show ?case
  proof (cases "breached h th p")
    case True
    then show ?thesis
      using Cons.IH[of _ acc] by (simp add: Let_def split: option.splits)
  next
    case False
    show ?thesis
    proof (cases cur)
      case None
      with False show ?thesis using Cons.IH[of None acc] by simp
    next
      case (Some cb)
      let ?cb1 = "cb\<lparr> endTime := Some (sp_timestamp p), endValue := Some (sp_value p),
                       duration := (sp_timestamp p - startTime cb) / (1000 * 60) \<rparr>"
      show ?thesis
      proof (cases "duration ?cb1 \<ge> 1")
        case True
        have a: "scanPoints h th rest None (acc @ [?cb1])
                 = (fst (scanPoints h th rest None []),
                    (acc @ [?cb1]) @ snd (scanPoints h th rest None []))"
          by (rule Cons.IH)
        have b: "scanPoints h th rest None [?cb1]
                 = (fst (scanPoints h th rest None []),
                    [?cb1] @ snd (scanPoints h th rest None []))"
          by (rule Cons.IH)
        from True have d: "1 \<le> (sp_timestamp p - startTime cb) / 60000" by simp
        show ?thesis using False Some d a b by (simp add: Let_def)
      next
        case F: False
        then have d: "\<not> 1 \<le> (sp_timestamp p - startTime cb) / 60000" by simp
        show ?thesis using False Some d Cons.IH[of None acc] by (simp add: Let_def)
      qed
    qed
  qed
qed

lemma closeOngoing_acc: "closeOngoing sd cur (acc @ xs) = acc @ closeOngoing sd cur xs"
  by (simp add: closeOngoing_def Let_def split: option.splits)

lemma checkThresholds_single:
  "checkThresholds h sd [th]
     = closeOngoing sd (fst (scanPoints h th sd None [])) (snd (scanPoints h th sd None []))"
  by (simp add: checkThresholds_def split: prod.splits)

lemma checkThresholds_foldl:
  "foldl (\<lambda>acc th. case scanPoints h th sd None acc of
                        (currentBreach, acc') \<Rightarrow> closeOngoing sd currentBreach acc') acc ths
     = acc @ checkThresholds h sd ths"
proof (induction ths arbitrary: acc)
  case Nil
  show ?case by (simp add: checkThresholds_def)
next
  case (Cons th ths)
  let ?one = "closeOngoing sd (fst (scanPoints h th sd None [])) (snd (scanPoints h th sd None []))"
  have step: "(case scanPoints h th sd None a of
                 (currentBreach, acc') \<Rightarrow> closeOngoing sd currentBreach acc') = a @ ?one" for a
    by (subst scanPoints_acc) (simp add: closeOngoing_acc)
  have "checkThresholds h sd (th # ths) = ?one @ checkThresholds h sd ths"
    unfolding checkThresholds_def foldl_Cons step
    using Cons.IH[of ?one] by (simp add: checkThresholds_def)
  moreover have "foldl (\<lambda>acc th. case scanPoints h th sd None acc of
                        (currentBreach, acc') \<Rightarrow> closeOngoing sd currentBreach acc') acc (th # ths)
       = (acc @ ?one) @ checkThresholds h sd ths"
    unfolding foldl_Cons step using Cons.IH[of "acc @ ?one"] by simp
  ultimately show ?case by simp
qed

lemma checkThresholds_Cons:
  "checkThresholds h sd (th # ths) = checkThresholds h sd [th] @ checkThresholds h sd ths"
proof -
  have "checkThresholds h sd (th # ths)
          = foldl (\<lambda>acc th. case scanPoints h th sd None acc of
                        (currentBreach, acc') \<Rightarrow> closeOngoing sd currentBreach acc')
              (checkThresholds h sd [th]) ths"
    by (simp add: checkThresholds_def)
  then show ?thesis by (simp add: checkThresholds_foldl)
qed

subsection \<open>Retained intervals\<close>

lemma scanPoints_retained:
  assumes "\<forall>b \<in> set acc. \<exists>e. endTime b = Some e \<and> startTime b \<le> e
              \<and> duration b = (e - startTime b) / 60000 \<and> 1 \<le> duration b"
  shows "\<forall>b \<in> set (snd (scanPoints h th pts cur acc)).
           \<exists>e. endTime b = Some e \<and> startTime b \<le> e
              \<and> duration b = (e - startTime b) / 60000 \<and> 1 \<le> duration b"
  using assms
proof (induction pts arbitrary: cur acc)
  case Nil
  then show ?case by simp
next
  case (Cons p rest)
  show ?case
  proof (cases "breached h th p")
    case True
    then show ?thesis
      using Cons.IH[OF Cons.prems] by (simp add: Let_def split: option.splits)
  next
    case False
    show ?thesis
    proof (cases cur)
      case None
      with False show ?thesis using Cons.IH[OF Cons.prems] by simp
    next
      case (Some cb)
      let ?cb1 = "cb\<lparr> endTime := Some (sp_timestamp p), endValue := Some (sp_value p),
                       duration := (sp_timestamp p - startTime cb) / (1000 * 60) \<rparr>"
      show ?thesis
      proof (cases "1 \<le> (sp_timestamp p - startTime cb) / 60000")
        case True
        then have "startTime cb \<le> sp_timestamp p" by simp
        with True Cons.prems
        have "\<forall>b \<in> set (acc @ [?cb1]). \<exists>e. endTime b = Some e \<and> startTime b \<le> e
              \<and> duration b = (e - startTime b) / 60000 \<and> 1 \<le> duration b"
          by simp
        from Cons.IH[OF this] False Some True show ?thesis by (simp add: Let_def)
      next
        case F: False
        with False Some Cons.IH[OF Cons.prems] show ?thesis by (simp add: Let_def)
      qed
    qed
  qed
qed

lemma closeOngoing_retained:
  assumes "\<forall>b \<in> set acc. \<exists>e. endTime b = Some e \<and> startTime b \<le> e
              \<and> duration b = (e - startTime b) / 60000 \<and> 1 \<le> duration b"
  shows "\<forall>b \<in> set (closeOngoing sd cur acc).
           \<exists>e. endTime b = Some e \<and> startTime b \<le> e
              \<and> duration b = (e - startTime b) / 60000 \<and> 1 \<le> duration b"
proof (cases cur)
  case None
  with assms show ?thesis by (simp add: closeOngoing_def)
next
  case (Some cb)
  show ?thesis
  proof (cases "1 \<le> (sp_timestamp (sd ! (length sd - 1)) - startTime cb) / 60000")
    case True
    then have "startTime cb \<le> sp_timestamp (sd ! (length sd - 1))" by simp
    with True Some assms show ?thesis by (simp add: closeOngoing_def Let_def)
  next
    case False
    with Some assms show ?thesis by (simp add: closeOngoing_def Let_def)
  qed
qed

lemma checkThresholds_retained:
  "\<forall>b \<in> set (checkThresholds h sd ths).
           \<exists>e. endTime b = Some e \<and> startTime b \<le> e
              \<and> duration b = (e - startTime b) / 60000 \<and> 1 \<le> duration b"
proof (induction ths)
  case Nil
  show ?case by (simp add: checkThresholds_def)
next
  case (Cons th ths)
  have "\<forall>b \<in> set (checkThresholds h sd [th]).
           \<exists>e. endTime b = Some e \<and> startTime b \<le> e
              \<and> duration b = (e - startTime b) / 60000 \<and> 1 \<le> duration b"
    unfolding checkThresholds_single
    by (rule closeOngoing_retained, rule scanPoints_retained) simp
  with Cons.IH show ?case
    by (subst checkThresholds_Cons) (simp add: ball_Un)
qed

subsection \<open>A single short excursion\<close>

lemma scanPoints_append:
  "scanPoints h th (xs @ ys) cur acc
     = scanPoints h th ys (fst (scanPoints h th xs cur acc)) (snd (scanPoints h th xs cur acc))"
proof (induction xs arbitrary: cur acc)
  case Nil
  show ?case by simp
next
  case (Cons p rest)
  show ?case
    by (cases "breached h th p"; cases cur) (simp_all add: Let_def Cons.IH)
qed

lemma scanPoints_clear:
  assumes "\<forall>q \<in> set pts. \<not> breached h th q"
  shows "scanPoints h th pts None acc = (None, acc)"
  using assms by (induction pts) simp_all

lemma single_excursion_level:
  assumes "\<forall>q \<in> set pre \<union> set post. \<not> breached h th q"
    and "post \<noteq> [] \<longrightarrow> sp_timestamp (hd post) - sp_timestamp p < 60000"
  shows "checkThresholds h (pre @ p # post) [th] = []"
proof -
  have pre: "scanPoints h th pre None [] = (None, [])"
    using assms(1) by (intro scanPoints_clear) simp
  have split: "scanPoints h th (pre @ p # post) None [] = scanPoints h th (p # post) None []"
    by (subst scanPoints_append) (simp add: pre)
  show ?thesis
  proof (cases "breached h th p")
    case False
    then have "scanPoints h th (p # post) None [] = (None, [])"
      using assms(1) by (intro scanPoints_clear) simp
    with split show ?thesis by (simp add: checkThresholds_single closeOngoing_def)
  next
    case True
    show ?thesis
    proof (cases post)
      case Nil
      with True split show ?thesis
        by (simp add: checkThresholds_single closeOngoing_def Let_def)
    next
      case (Cons q post')
      have nq: "\<not> breached h th q" using assms(1) Cons by simp
      have short: "\<not> 1 \<le> (sp_timestamp q - sp_timestamp p) / 60000"
        using assms(2) Cons by simp
      have rest: "scanPoints h th post' None [] = (None, [])"
        using assms(1) Cons by (intro scanPoints_clear) simp
      from True nq short rest have "scanPoints h th (p # post) None [] = (None, [])"
        unfolding Cons by (simp add: Let_def)
      with split show ?thesis by (simp add: checkThresholds_single closeOngoing_def)
    qed
  qed
qed

lemma single_excursion_all:
  assumes "\<forall>th \<in> set ths. \<forall>q \<in> set pre \<union> set post. \<not> breached h th q"
    and "post \<noteq> [] \<longrightarrow> sp_timestamp (hd post) - sp_timestamp p < 60000"
  shows "checkThresholds h (pre @ p # post) ths = []"
  using assms(1)
proof (induction ths)
  case Nil
  show ?case by (simp add: checkThresholds_def)
next
  case (Cons th ths)
  have "checkThresholds h (pre @ p # post) [th] = []"
    using Cons.prems assms(2) by (intro single_excursion_level) simp_all
  moreover have "checkThresholds h (pre @ p # post) ths = []"
    using Cons by simp
  ultimately show ?case by (subst checkThresholds_Cons) simp
qed

subsection \<open>The example series\<close>

lemma exampleSeries_detection:
  "analyzeThresholdBreaches exampleSeries exampleThresholds True
   = \<lparr>breaches =
        [\<lparr>level = Critical, threshold = 10, operator = ''>='', startTime = 900000,
          startValue = 10, peakValue = 10, peakTime = 900000, endTime = Some 1200000,
          endValue = Some 0, duration = 5, maxDeviation = 0, isOngoing = False\<rparr>,
         \<lparr>level = Warning, threshold = 5, operator = ''>='', startTime = 600000,
          startValue = 5, peakValue = 10, peakTime = 900000, endTime = Some 1200000,
          endValue = Some 0, duration = 10, maxDeviation = 5, isOngoing = False\<rparr>],
      stats = Some \<lparr>totalBreaches = 2, criticalBreaches = 1, warningBreaches = 1,
                avgDuration = 8, longestBreach = 10, shortBreaches = 2,
                sustainedBreaches = 0, maxDeviationStat = 5\<rparr>\<rparr>"
  by (simp add: analyzeThresholdBreaches_def checkThresholds_def thresholdsToCheck_def
        exampleSeries_def exampleThresholds_def
        breached_def closeOngoing_def breachStatistics_def mathRound_def Let_def)


text \<open>
  Claim C5.  Every interval the detector returns has an end time that is not before its
  start time, a duration of \<open>(endTime - startTime) / 60000\<close> minutes, and a duration of
  at least one minute; that covers the interval still open at the end of the series,
  which goes through the same test.  Consequently, when the sorted series has one point
  \<open>p\<close> outside of which no configured threshold is breached, and the next point (if
  any) follows \<open>p\<close> by less than a minute, the detector returns no interval.
\<close>

theorem breach_minimum_duration:
  "(\<forall>b \<in> set (breaches (analyzeThresholdBreaches series ths isHighBad)).
       \<exists>e. endTime b = Some e \<and> startTime b \<le> e
          \<and> duration b = (e - startTime b) / 60000 \<and> 1 \<le> duration b)
   \<and> (sort_key sp_timestamp series = pre @ p # post
        \<and> (\<forall>th \<in> set (thresholdsToCheck ths isHighBad).
              \<forall>q \<in> set pre \<union> set post. \<not> breached isHighBad th q)
        \<and> (post \<noteq> [] \<longrightarrow> sp_timestamp (hd post) - sp_timestamp p < 60000)
      \<longrightarrow> breaches (analyzeThresholdBreaches series ths isHighBad) = [])"
proof (intro conjI impI)
  show "\<forall>b \<in> set (breaches (analyzeThresholdBreaches series ths isHighBad)).
       \<exists>e. endTime b = Some e \<and> startTime b \<le> e
          \<and> duration b = (e - startTime b) / 60000 \<and> 1 \<le> duration b"
    using checkThresholds_retained[of isHighBad "sort_key sp_timestamp series"
            "thresholdsToCheck ths isHighBad"]
    by (simp add: analyzeThresholdBreaches_def Let_def)
next
  assume a: "sort_key sp_timestamp series = pre @ p # post
        \<and> (\<forall>th \<in> set (thresholdsToCheck ths isHighBad).
              \<forall>q \<in> set pre \<union> set post. \<not> breached isHighBad th q)
        \<and> (post \<noteq> [] \<longrightarrow> sp_timestamp (hd post) - sp_timestamp p < 60000)"
  then have "checkThresholds isHighBad (pre @ p # post) (thresholdsToCheck ths isHighBad) = []"
    by (intro single_excursion_all) blast+
  with a show "breaches (analyzeThresholdBreaches series ths isHighBad) = []"
    by (simp add: analyzeThresholdBreaches_def Let_def)
qed

theorem breach_minimum_duration_witness:
  "hd (breaches (analyzeThresholdBreaches exampleSeries exampleThresholds True))
     \<in> set (breaches (analyzeThresholdBreaches exampleSeries exampleThresholds True))
   \<and> (\<exists>e. endTime (hd (breaches (analyzeThresholdBreaches exampleSeries exampleThresholds True)))
            = Some e
          \<and> startTime (hd (breaches (analyzeThresholdBreaches exampleSeries exampleThresholds True)))
              \<le> e
          \<and> duration (hd (breaches (analyzeThresholdBreaches exampleSeries exampleThresholds True)))
              = (e - startTime (hd (breaches
                       (analyzeThresholdBreaches exampleSeries exampleThresholds True)))) / 60000
          \<and> 1 \<le> duration (hd (breaches
                       (analyzeThresholdBreaches exampleSeries exampleThresholds True))))
   \<and> sort_key sp_timestamp
         [\<lparr>sp_timestamp = 30000, sp_value = 10\<rparr>, \<lparr>sp_timestamp = 0, sp_value = 0\<rparr>,
          \<lparr>sp_timestamp = 60000, sp_value = 0\<rparr>]
       = [\<lparr>sp_timestamp = 0, sp_value = 0\<rparr>] @ \<lparr>sp_timestamp = 30000, sp_value = 10\<rparr>
           # [\<lparr>sp_timestamp = 60000, sp_value = 0\<rparr>]
   \<and> list_all (\<lambda>th. list_all (\<lambda>q. \<not> breached True th q)
                   ([\<lparr>sp_timestamp = 0, sp_value = 0\<rparr>] @ [\<lparr>sp_timestamp = 60000, sp_value = 0\<rparr>]))
         (thresholdsToCheck exampleThresholds True)
   \<and> breached True \<lparr>th_value = 10, th_level = Critical, th_operator = ''>=''\<rparr>
         \<lparr>sp_timestamp = 30000, sp_value = 10\<rparr>
   \<and> sp_timestamp (hd [\<lparr>sp_timestamp = 60000, sp_value = 0\<rparr>])
         - sp_timestamp \<lparr>sp_timestamp = 30000, sp_value = 10\<rparr> < 60000
   \<and> breaches (analyzeThresholdBreaches
         [\<lparr>sp_timestamp = 30000, sp_value = 10\<rparr>, \<lparr>sp_timestamp = 0, sp_value = 0\<rparr>,
          \<lparr>sp_timestamp = 60000, sp_value = 0\<rparr>] exampleThresholds True) = []"
proof -
  let ?series = "[\<lparr>sp_timestamp = 30000, sp_value = 10\<rparr>, \<lparr>sp_timestamp = 0, sp_value = 0\<rparr>,
          \<lparr>sp_timestamp = 60000, sp_value = 0\<rparr>]"
  let ?pre = "[\<lparr>sp_timestamp = 0, sp_value = 0\<rparr>]"
  let ?p = "\<lparr>sp_timestamp = 30000, sp_value = 10\<rparr>"
  let ?post = "[\<lparr>sp_timestamp = 60000, sp_value = 0\<rparr>]"
  let ?bs = "breaches (analyzeThresholdBreaches exampleSeries exampleThresholds True)"
  have h1: "sort_key sp_timestamp ?series = ?pre @ ?p # ?post" by simp
  have h2: "\<forall>th \<in> set (thresholdsToCheck exampleThresholds True).
          \<forall>q \<in> set ?pre \<union> set ?post. \<not> breached True th q"
    by (simp add: thresholdsToCheck_def exampleThresholds_def breached_def)
  have h2': "list_all (\<lambda>th. list_all (\<lambda>q. \<not> breached True th q) (?pre @ ?post))
         (thresholdsToCheck exampleThresholds True)"
    by (simp add: thresholdsToCheck_def exampleThresholds_def breached_def)
  have h3: "sp_timestamp (hd ?post) - sp_timestamp ?p < 60000" by simp
  have h4: "breached True \<lparr>th_value = 10, th_level = Critical, th_operator = ''>=''\<rparr> ?p"
    by (simp add: breached_def)
  have n: "hd ?bs \<in> set ?bs"
    by (simp add: exampleSeries_detection)
  note a = breach_minimum_duration[of exampleSeries exampleThresholds True,
             THEN conjunct1, rule_format, OF n]
  have b: "breaches (analyzeThresholdBreaches ?series exampleThresholds True) = []"
    by (rule breach_minimum_duration[of ?series exampleThresholds True ?pre ?p ?post,
               THEN conjunct2, rule_format]) (use h1 h2 h3 in blast)
  show ?thesis
    apply (intro conjI)
          apply (rule n)
         apply (rule a)
        apply (rule h1)
       apply (rule h2')
      apply (rule h4)
     apply (rule h3)
    apply (rule b)
    done
qed

subsection \<open>Grouping by level\<close>

lemma scanPoints_level:
  assumes "\<forall>b \<in> set acc. level b = th_level th"
    and "\<forall>c. cur = Some c \<longrightarrow> level c = th_level th"
  shows "(\<forall>b \<in> set (snd (scanPoints h th pts cur acc)). level b = th_level th)
       \<and> (\<forall>c. fst (scanPoints h th pts cur acc) = Some c \<longrightarrow> level c = th_level th)"
  using assms
proof (induction pts arbitrary: cur acc)
  case Nil
  then show ?case by simp
next
  case (Cons p rest)
  have none: "\<forall>c. (None :: breach option) = Some c \<longrightarrow> level c = th_level th" by simp
  show ?case
  proof (cases "breached h th p")
    case True
    show ?thesis
    proof (cases cur)
      case None
      let ?c = "\<lparr> level = th_level th, threshold = th_value th,
                       operator = th_operator th,
                       startTime = sp_timestamp p, startValue = sp_value p,
                       peakValue = sp_value p, peakTime = sp_timestamp p,
                       endTime = None, endValue = None, duration = 0,
                       maxDeviation = \<bar>sp_value p - th_value th\<bar>,
                       isOngoing = False \<rparr>"
      have a2: "\<forall>c. Some ?c = Some c \<longrightarrow> level c = th_level th" by simp
      from Cons.IH[OF Cons.prems(1) a2] True None show ?thesis by simp
    next
      case (Some cb)
      define cb2 where "cb2 = (let cb1 = (if h
                        then (if sp_value p > peakValue cb
                              then cb\<lparr> peakValue := sp_value p, peakTime := sp_timestamp p \<rparr>
                              else cb)
                        else (if sp_value p < peakValue cb
                              then cb\<lparr> peakValue := sp_value p, peakTime := sp_timestamp p \<rparr>
                              else cb))
             in cb1\<lparr> maxDeviation := max (maxDeviation cb1) \<bar>sp_value p - th_value th\<bar> \<rparr>)"
      have "level cb2 = level cb" by (simp add: cb2_def Let_def)
      with Cons.prems(2) Some have a2: "\<forall>c. Some cb2 = Some c \<longrightarrow> level c = th_level th"
        by simp
      have "scanPoints h th (p # rest) cur acc = scanPoints h th rest (Some cb2) acc"
        using True Some by (simp add: cb2_def Let_def)
      with Cons.IH[OF Cons.prems(1) a2] show ?thesis by simp
    qed
  next
    case False
    show ?thesis
    proof (cases cur)
      case None
      with False Cons.IH[OF Cons.prems(1) none] show ?thesis by simp
    next
      case (Some cb)
      with Cons.prems(2) have l: "level cb = th_level th" by simp
      let ?cb1 = "cb\<lparr> endTime := Some (sp_timestamp p), endValue := Some (sp_value p),
                       duration := (sp_timestamp p - startTime cb) / (1000 * 60) \<rparr>"
      show ?thesis
      proof (cases "1 \<le> (sp_timestamp p - startTime cb) / 60000")
        case long: True
        have a1: "\<forall>b \<in> set (acc @ [?cb1]). level b = th_level th"
          using Cons.prems(1) l by simp
        have "scanPoints h th (p # rest) cur acc = scanPoints h th rest None (acc @ [?cb1])"
          using False Some long by (simp add: Let_def)
        with Cons.IH[OF a1 none] show ?thesis by simp
      next
        case short: False
        have "scanPoints h th (p # rest) cur acc = scanPoints h th rest None acc"
          using False Some short by (simp add: Let_def)
        with Cons.IH[OF Cons.prems(1) none] show ?thesis by simp
      qed
    qed
  qed
qed

lemma checkThresholds_single_level:
  "\<forall>b \<in> set (checkThresholds h sd [th]). level b = th_level th"
proof -
  have s: "(\<forall>b \<in> set (snd (scanPoints h th sd None [])). level b = th_level th)
       \<and> (\<forall>c. fst (scanPoints h th sd None []) = Some c \<longrightarrow> level c = th_level th)"
    by (rule scanPoints_level) simp_all
  show ?thesis
  proof (cases "fst (scanPoints h th sd None [])")
    case None
    with s show ?thesis by (simp add: checkThresholds_single closeOngoing_def)
  next
    case (Some c)
    with s show ?thesis by (simp add: checkThresholds_single closeOngoing_def Let_def)
  qed
qed

lemma scanPoints_ascending:
  assumes "sorted (map sp_timestamp pts)"
    and "sorted_wrt (<) (map startTime acc)"
    and "\<forall>b \<in> set acc. \<exists>e. endTime b = Some e \<and> startTime b < e
            \<and> (\<forall>q \<in> set pts. e \<le> sp_timestamp q)
            \<and> (\<forall>c. cur = Some c \<longrightarrow> e \<le> startTime c)"
    and "\<forall>c. cur = Some c \<longrightarrow> (\<forall>q \<in> set pts. startTime c \<le> sp_timestamp q)"
  shows "sorted_wrt (<) (map startTime (snd (scanPoints h th pts cur acc)))
       \<and> (\<forall>b \<in> set (snd (scanPoints h th pts cur acc)).
             \<forall>c. fst (scanPoints h th pts cur acc) = Some c \<longrightarrow> startTime b < startTime c)"
  using assms
proof (induction pts arbitrary: cur acc)
  case Nil
  then show ?case by fastforce
next
  case (Cons p rest)
  have srt: "sorted (map sp_timestamp rest)" using Cons.prems(1) by simp
  have le: "\<forall>q \<in> set rest. sp_timestamp p \<le> sp_timestamp q" using Cons.prems(1) by simp
  show ?case
  proof (cases "breached h th p")
    case True
    show ?thesis
    proof (cases cur)
      case None
      let ?c = "\<lparr> level = th_level th, threshold = th_value th,
                       operator = th_operator th,
                       startTime = sp_timestamp p, startValue = sp_value p,
                       peakValue = sp_value p, peakTime = sp_timestamp p,
                       endTime = None, endValue = None, duration = 0,
                       maxDeviation = \<bar>sp_value p - th_value th\<bar>,
                       isOngoing = False \<rparr>"
      have a3: "\<forall>b \<in> set acc. \<exists>e. endTime b = Some e \<and> startTime b < e
            \<and> (\<forall>q \<in> set rest. e \<le> sp_timestamp q)
            \<and> (\<forall>c. Some ?c = Some c \<longrightarrow> e \<le> startTime c)"
        using Cons.prems(3) by fastforce
      have a4: "\<forall>c. Some ?c = Some c \<longrightarrow> (\<forall>q \<in> set rest. startTime c \<le> sp_timestamp q)"
        using le by simp
      from Cons.IH[OF srt Cons.prems(2) a3 a4] True None show ?thesis by simp
    next
      case (Some cb)
      define cb2 where "cb2 = (let cb1 = (if h
                        then (if sp_value p > peakValue cb
                              then cb\<lparr> peakValue := sp_value p, peakTime := sp_timestamp p \<rparr>
                              else cb)
                        else (if sp_value p < peakValue cb
                              then cb\<lparr> peakValue := sp_value p, peakTime := sp_timestamp p \<rparr>
                              else cb))
             in cb1\<lparr> maxDeviation := max (maxDeviation cb1) \<bar>sp_value p - th_value th\<bar> \<rparr>)"
      have st: "startTime cb2 = startTime cb" by (simp add: cb2_def Let_def)
      have a3: "\<forall>b \<in> set acc. \<exists>e. endTime b = Some e \<and> startTime b < e
            \<and> (\<forall>q \<in> set rest. e \<le> sp_timestamp q)
            \<and> (\<forall>c. Some cb2 = Some c \<longrightarrow> e \<le> startTime c)"
        using Cons.prems(3) Some st by fastforce
      have a4: "\<forall>c. Some cb2 = Some c \<longrightarrow> (\<forall>q \<in> set rest. startTime c \<le> sp_timestamp q)"
        using Cons.prems(4) Some st by simp
      have "scanPoints h th (p # rest) cur acc = scanPoints h th rest (Some cb2) acc"
        using True Some by (simp add: cb2_def Let_def)
      with Cons.IH[OF srt Cons.prems(2) a3 a4] show ?thesis by simp
    qed
  next
    case False
    show ?thesis
    proof (cases cur)
      case None
      have a3: "\<forall>b \<in> set acc. \<exists>e. endTime b = Some e \<and> startTime b < e
            \<and> (\<forall>q \<in> set rest. e \<le> sp_timestamp q)
            \<and> (\<forall>c. (None :: breach option) = Some c \<longrightarrow> e \<le> startTime c)"
        using Cons.prems(3) by fastforce
      have a4: "\<forall>c. (None :: breach option) = Some c
                  \<longrightarrow> (\<forall>q \<in> set rest. startTime c \<le> sp_timestamp q)" by simp
      from Cons.IH[OF srt Cons.prems(2) a3 a4] False None show ?thesis by simp
    next
      case (Some cb)
      let ?cb1 = "cb\<lparr> endTime := Some (sp_timestamp p), endValue := Some (sp_value p),
                       duration := (sp_timestamp p - startTime cb) / (1000 * 60) \<rparr>"
      have a4: "\<forall>c. (None :: breach option) = Some c
                  \<longrightarrow> (\<forall>q \<in> set rest. startTime c \<le> sp_timestamp q)" by simp
      show ?thesis
      proof (cases "1 \<le> (sp_timestamp p - startTime cb) / 60000")
        case long: True
        then have lt: "startTime cb < sp_timestamp p" by simp
        have before: "\<forall>b \<in> set acc. startTime b < startTime cb"
          using Cons.prems(3) Some by fastforce
        have a2: "sorted_wrt (<) (map startTime (acc @ [?cb1]))"
          using Cons.prems(2) before by (simp add: sorted_wrt_append)
        have a3: "\<forall>b \<in> set (acc @ [?cb1]). \<exists>e. endTime b = Some e \<and> startTime b < e
            \<and> (\<forall>q \<in> set rest. e \<le> sp_timestamp q)
            \<and> (\<forall>c. (None :: breach option) = Some c \<longrightarrow> e \<le> startTime c)"
          using Cons.prems(3) lt le by fastforce
        have "scanPoints h th (p # rest) cur acc = scanPoints h th rest None (acc @ [?cb1])"
          using False Some long by (simp add: Let_def)
        with Cons.IH[OF srt a2 a3 a4] show ?thesis by simp
      next
        case short: False
        have a3: "\<forall>b \<in> set acc. \<exists>e. endTime b = Some e \<and> startTime b < e
            \<and> (\<forall>q \<in> set rest. e \<le> sp_timestamp q)
            \<and> (\<forall>c. (None :: breach option) = Some c \<longrightarrow> e \<le> startTime c)"
          using Cons.prems(3) by fastforce
        have "scanPoints h th (p # rest) cur acc = scanPoints h th rest None acc"
          using False Some short by (simp add: Let_def)
        with Cons.IH[OF srt Cons.prems(2) a3 a4] show ?thesis by simp
      qed
    qed
  qed
qed

lemma checkThresholds_single_ascending:
  assumes "sorted (map sp_timestamp sd)"
  shows "sorted_wrt (<) (map startTime (checkThresholds h sd [th]))"
proof -
  define cur' where "cur' = fst (scanPoints h th sd None [])"
  define acc' where "acc' = snd (scanPoints h th sd None [])"
  have "sorted_wrt (<) (map startTime (snd (scanPoints h th sd None [])))
       \<and> (\<forall>b \<in> set (snd (scanPoints h th sd None [])).
             \<forall>c. fst (scanPoints h th sd None []) = Some c \<longrightarrow> startTime b < startTime c)"
    by (rule scanPoints_ascending[OF assms]) simp_all
  then have s: "sorted_wrt (<) (map startTime acc')"
    and b: "\<And>b c. b \<in> set acc' \<Longrightarrow> cur' = Some c \<Longrightarrow> startTime b < startTime c"
    unfolding cur'_def acc'_def by blast+
  have "sorted_wrt (<) (map startTime (closeOngoing sd cur' acc'))"
  proof (cases cur')
    case None
    with s show ?thesis by (simp add: closeOngoing_def)
  next
    case (Some c)
    with s b[OF _ Some] show ?thesis
      by (simp add: closeOngoing_def Let_def sorted_wrt_append)
  qed
  then show ?thesis unfolding checkThresholds_single cur'_def acc'_def .
qed

text \<open>
  Claim C10.  With both a critical and a warning threshold configured, the list the
  detector returns is the critical intervals followed by the warning intervals, each
  group in strictly ascending order of start time.  The list as a whole is sorted by
  start time only when no critical interval starts after a warning interval, so it is
  not sorted in general: for the example series the critical interval, which starts at
  900000, precedes the warning interval, which starts at 600000.
\<close>

theorem breaches_grouped_by_level:
  "(critical ths = Some c \<and> warning ths = Some w \<longrightarrow>
      (\<exists>cs ws. breaches (analyzeThresholdBreaches series ths isHighBad) = cs @ ws
          \<and> (\<forall>b \<in> set cs. level b = Critical) \<and> (\<forall>b \<in> set ws. level b = Warning)
          \<and> sorted_wrt (<) (map startTime cs) \<and> sorted_wrt (<) (map startTime ws)
          \<and> (sorted (map startTime (breaches (analyzeThresholdBreaches series ths isHighBad)))
               \<longleftrightarrow> list_all (\<lambda>b. list_all (\<lambda>b'. startTime b \<le> startTime b') ws) cs)))
   \<and> \<not> sorted (map startTime
          (breaches (analyzeThresholdBreaches exampleSeries exampleThresholds True)))"
proof (intro conjI impI)
  assume a: "critical ths = Some c \<and> warning ths = Some w"
  let ?sd = "sort_key sp_timestamp series"
  let ?op = "if isHighBad then ''>='' else ''<=''"
  let ?tc = "\<lparr> th_value = c, th_level = Critical, th_operator = ?op \<rparr>"
  let ?tw = "\<lparr> th_value = w, th_level = Warning, th_operator = ?op \<rparr>"
  let ?cs = "checkThresholds isHighBad ?sd [?tc]"
  let ?ws = "checkThresholds isHighBad ?sd [?tw]"
  have ths: "thresholdsToCheck ths isHighBad = [?tc, ?tw]"
    using a by (simp add: thresholdsToCheck_def)
  have srt: "sorted (map sp_timestamp ?sd)" by simp
  have split: "checkThresholds isHighBad ?sd [?tc, ?tw] = ?cs @ ?ws"
    by (rule checkThresholds_Cons)
  have lc: "\<forall>b \<in> set ?cs. level b = Critical"
    using checkThresholds_single_level[of isHighBad ?sd ?tc] by simp
  have lw: "\<forall>b \<in> set ?ws. level b = Warning"
    using checkThresholds_single_level[of isHighBad ?sd ?tw] by simp
  have sc: "sorted_wrt (<) (map startTime ?cs)"
    by (rule checkThresholds_single_ascending[OF srt])
  have sw: "sorted_wrt (<) (map startTime ?ws)"
    by (rule checkThresholds_single_ascending[OF srt])
  have iff: "sorted (map startTime (xs @ ys))
               \<longleftrightarrow> list_all (\<lambda>b. list_all (\<lambda>b'. startTime b \<le> startTime b') ys) xs"
    if "sorted_wrt (<) (map startTime xs)" "sorted_wrt (<) (map startTime ys)"
    for xs ys :: "breach list"
  proof -
    have "sorted (map startTime xs)" "sorted (map startTime ys)"
      using that by (simp_all add: strict_sorted_imp_sorted)
    then show ?thesis by (auto simp: sorted_append list_all_iff)
  qed
  show "\<exists>cs ws. breaches (analyzeThresholdBreaches series ths isHighBad) = cs @ ws
          \<and> (\<forall>b \<in> set cs. level b = Critical) \<and> (\<forall>b \<in> set ws. level b = Warning)
          \<and> sorted_wrt (<) (map startTime cs) \<and> sorted_wrt (<) (map startTime ws)
          \<and> (sorted (map startTime (breaches (analyzeThresholdBreaches series ths isHighBad)))
               \<longleftrightarrow> list_all (\<lambda>b. list_all (\<lambda>b'. startTime b \<le> startTime b') ws) cs)"
  proof (cases "series = []")
    case True
    then have "breaches (analyzeThresholdBreaches series ths isHighBad) = [] @ []"
      by (simp add: analyzeThresholdBreaches_def)
    then show ?thesis by (intro exI[of _ "[]"]) simp
  next
    case False
    then have e: "breaches (analyzeThresholdBreaches series ths isHighBad) = ?cs @ ?ws"
      by (simp add: analyzeThresholdBreaches_def Let_def ths split)
    show ?thesis
      apply (rule exI[of _ ?cs], rule exI[of _ ?ws])
      apply (intro conjI)
           apply (rule e)
          apply (rule lc)
         apply (rule lw)
        apply (rule sc)
       apply (rule sw)
      apply (simp only: e)
      apply (rule iff[OF sc sw])
      done
  qed
next
  show "\<not> sorted (map startTime
          (breaches (analyzeThresholdBreaches exampleSeries exampleThresholds True)))"
    by (simp add: exampleSeries_detection)
qed

theorem breaches_grouped_by_level_witness:
  "critical exampleThresholds = Some 10 \<and> warning exampleThresholds = Some 5
   \<and> (\<exists>cs ws. breaches (analyzeThresholdBreaches exampleSeries exampleThresholds True)
                 = cs @ ws
          \<and> (\<forall>b \<in> set cs. level b = Critical) \<and> (\<forall>b \<in> set ws. level b = Warning)
          \<and> sorted_wrt (<) (map startTime cs) \<and> sorted_wrt (<) (map startTime ws)
          \<and> (sorted (map startTime
                 (breaches (analyzeThresholdBreaches exampleSeries exampleThresholds True)))
               \<longleftrightarrow> list_all (\<lambda>b. list_all (\<lambda>b'. startTime b \<le> startTime b') ws) cs))
   \<and> breaches (analyzeThresholdBreaches exampleSeries exampleThresholds True) \<noteq> []"
proof -
  have h: "critical exampleThresholds = Some 10 \<and> warning exampleThresholds = Some 5"
    by (simp add: exampleThresholds_def)
  note r = breaches_grouped_by_level[of exampleThresholds 10 5 exampleSeries True,
             THEN conjunct1, rule_format, OF h]
  have n: "breaches (analyzeThresholdBreaches exampleSeries exampleThresholds True) \<noteq> []"
    by (simp add: exampleSeries_detection)
  from h r n show ?thesis by blast
qed

section \<open>The combined summary\<close>

lemma combineHighResData_nonempty:
  assumes "combineHighResData batch ths h = Inr cd" and "cd_timeSeriesData cd \<noteq> []"
  shows "cd_stats cd = calculateStatistics (map sp_value (cd_timeSeriesData cd))
       \<and> totalPoints cd = length (cd_timeSeriesData cd)
       \<and> cd_breaches cd = breaches (analyzeThresholdBreaches (cd_timeSeriesData cd) ths h)
       \<and> cd_breachStats cd = stats (analyzeThresholdBreaches (cd_timeSeriesData cd) ths h)
       \<and> volatilityScore cd = volatilityOf (cd_stats cd)"
  using assms unfolding combineHighResData_def Let_def emptyCombined_def
  by (auto split: if_splits sum.splits simp: comp_def)

lemma combineHighResData_empty:
  assumes "combineHighResData batch ths h = Inr cd" and "cd_timeSeriesData cd = []"
  shows "cd = emptyCombined"
  using assms unfolding combineHighResData_def Let_def
  by (auto split: if_splits sum.splits simp: emptyCombined_def)

text \<open>
  Five samples at five-minute spacing span a third of an hour; the quotient is the
  double nearest to \<open>1/3\<close>, and 5 divided by it rounds to 15 points per hour.
\<close>

lemma fiveMinuteBatch_dense:
  "js_div (Num (real (5::nat))) (js_div (Num (1200000 - 0)) (Num (1000 * 60 * 60))) = Num 15"
proof -
  have a: "js_div (Num (1200000 - 0)) (Num (1000 * 60 * 60))
             = Num (6004799503160661 / 18014398509481984)"
    by (simp add: js_div_def roundResult_finite[OF roundDouble_third])
  have b: "js_div (Num (real (5::nat))) (Num (6004799503160661 / 18014398509481984)) = Num 15"
    by (simp add: js_div_def roundResult_finite[OF roundDouble_fifteen])
  show ?thesis unfolding a b ..
qed

lemma fiveMinuteBatch_rolling:
  "calculateRollingAggregation (timeSeriesData (fiveMinuteBatch [v0, v1, v2, v3, v4] ! 0))
      600000 300000 ''avg'' True
   = Inr [\<lparr>wp_timestamp = 600000, wp_value = averageOfTwo v1 v2, windowStart = 0,
            windowEnd = 600000, dataPointsInWindow = 2\<rparr>,
          \<lparr>wp_timestamp = 900000, wp_value = averageOfTwo v2 v3, windowStart = 300000,
            windowEnd = 900000, dataPointsInWindow = 2\<rparr>,
          \<lparr>wp_timestamp = 1200000, wp_value = averageOfTwo v3 v4, windowStart = 600000,
            windowEnd = 1200000, dataPointsInWindow = 2\<rparr>]"
  by (simp add: fiveMinuteBatch_def calculateRollingAggregation_def validAggregations_def
        rollingLoop.simps rollingStep_def pointsInWindow_def sparseWindow_def
        aggregateValues_def List.map_filter_def Let_def upt_rec averageOfTwo_def)

lemma fiveMinuteBatch_windowed:
  "rollingWindowData (fiveMinuteBatch [v0, v1, v2, v3, v4] ! 0)
   = Inr [\<lparr>wp_timestamp = 600000, wp_value = averageOfTwo v1 v2, windowStart = 0,
            windowEnd = 600000, dataPointsInWindow = 2\<rparr>,
          \<lparr>wp_timestamp = 900000, wp_value = averageOfTwo v2 v3, windowStart = 300000,
            windowEnd = 900000, dataPointsInWindow = 2\<rparr>,
          \<lparr>wp_timestamp = 1200000, wp_value = averageOfTwo v3 v4, windowStart = 600000,
            windowEnd = 1200000, dataPointsInWindow = 2\<rparr>]"
proof -
  have raw: "timeSeriesData (fiveMinuteBatch [v0, v1, v2, v3, v4] ! 0)
      = [\<lparr>timestamp = 0, pointValue = Number v0\<rparr>,
         \<lparr>timestamp = 300000, pointValue = Number v1\<rparr>,
         \<lparr>timestamp = 600000, pointValue = Number v2\<rparr>,
         \<lparr>timestamp = 900000, pointValue = Number v3\<rparr>,
         \<lparr>timestamp = 1200000, pointValue = Number v4\<rparr>]"
    "qi_timeWindowMs (fiveMinuteBatch [v0, v1, v2, v3, v4] ! 0) = 600000"
    "qi_aggregation (fiveMinuteBatch [v0, v1, v2, v3, v4] ! 0) = ''avg''"
    "rollupSeconds (fiveMinuteBatch [v0, v1, v2, v3, v4] ! 0) = 300"
    by (simp_all add: fiveMinuteBatch_def upt_rec)
  have dense: "\<not> js_lt (js_div (Num (real (5::nat)))
                          (js_div (Num (1200000 - 0)) (Num (1000 * 60 * 60)))) (Num 1.5)"
    unfolding fiveMinuteBatch_dense by (simp add: js_lt_def)
  note roll = fiveMinuteBatch_rolling[of v0 v1 v2 v3 v4, unfolded raw]
  show ?thesis
    unfolding rollingWindowData_def Let_def raw
    using dense roll by simp
qed

lemma fiveMinuteBatch_combined:
  "combineHighResData (fiveMinuteBatch [v0, v1, v2, v3, v4]) ths h
     = Inr (combinedOf [averageOfTwo v1 v2, averageOfTwo v2 v3, averageOfTwo v3 v4] ths h 5)"
proof -
  have raw: "length (timeSeriesData (fiveMinuteBatch [v0, v1, v2, v3, v4] ! 0)) = 5"
    "length (fiveMinuteBatch [v0, v1, v2, v3, v4]) = 1"
    by (simp_all add: fiveMinuteBatch_def)
  show ?thesis
    unfolding combineHighResData_def Let_def raw fiveMinuteBatch_windowed
    by (simp add: combinedOf_def rollingSeries_def upt_rec)
qed

lemma averageOfTwo_examples:
  "averageOfTwo 5 5 = 5" "averageOfTwo 5 15 = 10" "averageOfTwo 15 (- 15) = 0"
  "averageOfTwo (- 3) (- 3) = - 3" "averageOfTwo (- 3) 3 = 0" "averageOfTwo 3 3 = 3"
  "averageOfTwo 0 0 = 0" "averageOfTwo 1 1 = 1" "averageOfTwo 1 2 = 3 / 2"
  "averageOfTwo 2 2 = 2"
  "averageOfTwo (- 12) (- 12) = - 12" "averageOfTwo (- 12) (- 4) = - 8"
  "averageOfTwo (- 4) (- 4) = - 4"
  "averageOfTwo (- (5 / 4)) (- (5 / 4)) = - (5 / 4)" "averageOfTwo (- (5 / 4)) (3 / 4) = - (1 / 4)"
  "averageOfTwo (3 / 4) (3 / 4) = 3 / 4"
  by (simp_all add: averageOfTwo_def)


lemma exampleBatch_combined:
  "combineHighResData exampleBatch exampleThresholds True
     = Inr (combinedOf [5, 10, 0] exampleThresholds True 5)"
  unfolding exampleBatch_def
  using fiveMinuteBatch_combined[of 5 5 5 15 "- 15" exampleThresholds True]
  by (simp add: averageOfTwo_examples)

lemma singleSampleBatch_windowed: "rollingWindowData (singleSampleBatch ! 0) = Inr []"
  by (simp add: rollingWindowData_def singleSampleBatch_def js_div_def js_lt_def
        js_signedInf_def js_signedZero_def calculateRollingAggregation_def
        validAggregations_def rollingLoop.simps Let_def)

lemma singleSampleBatch_combined:
  "combineHighResData singleSampleBatch ths h = Inr emptyCombined"
proof -
  have "length singleSampleBatch = 1"
    "length (timeSeriesData (singleSampleBatch ! 0)) = 1"
    by (simp_all add: singleSampleBatch_def)
  then show ?thesis
    unfolding combineHighResData_def Let_def singleSampleBatch_windowed by simp
qed

lemma combinedOf_fields:
  "volatilityScore (combinedOf rs ths h raw) = volatilityOf (calculateStatistics rs)"
  "cd_stats (combinedOf rs ths h raw) = calculateStatistics rs"
  "cd_timeSeriesData (combinedOf rs ths h raw) = rollingSeries rs"
  by (simp_all add: combinedOf_def)

lemma rollingSeries_three:
  "rollingSeries [a, b, c] \<noteq> []" "map sp_value (rollingSeries [a, b, c]) = [a, b, c]"
  by (simp_all add: rollingSeries_def upt_rec)

section \<open>The externally visible breach list\<close>




section \<open>The volatility score\<close>

lemma js_lt_asym: "js_lt a b \<Longrightarrow> \<not> js_lt b a"
  by (cases a; cases b) (simp_all add: js_lt_def)

lemma js_min_upper: "\<not> js_lt a (js_min a b)"
proof (cases "js_isNaN a \<or> js_isNaN b")
  case True
  then show ?thesis by (simp add: js_min_def js_lt_def)
next
  case False
  then show ?thesis
    using js_lt_asym[of b a] by (cases a; cases b) (auto simp: js_min_def js_lt_def)
qed

subsection \<open>Numbers without a sign bit\<close>

lemma roundResult_nonneg: "0 \<le> x \<Longrightarrow> js_nonneg (roundResult x)"
  using roundDouble_nonneg[of x] by (auto simp add: roundResult_def Let_def js_signedInf_def)

lemma roundResult_notNaN: "\<not> js_isNaN (roundResult x)"
  by (simp add: roundResult_def Let_def js_signedInf_def)

lemma js_nonneg_notNaN: "js_nonneg a \<Longrightarrow> \<not> js_isNaN a"
  by (cases a) simp_all

lemma js_add_nonneg:
  assumes "js_nonneg a" and "js_nonneg b"
  shows "js_nonneg (js_add a b)"
  using assms roundResult_nonneg[of "js_real a + js_real b"]
  by (cases a; cases b) (simp_all add: js_add_def)

lemma js_div_nonneg_pos:
  assumes "js_nonneg a" and "0 < b"
  shows "js_nonneg (js_div a (Num b))"
proof (cases a)
  case (Num x)
  with assms have "0 \<le> x / b" by simp
  then have "js_nonneg (roundResult (x / b))" by (rule roundResult_nonneg)
  with Num assms show ?thesis by (simp add: js_div_def js_signedZero_def)
qed (use assms in \<open>simp_all add: js_div_def js_signedInf_def\<close>)

lemma js_mul_nonneg_pos:
  assumes "js_nonneg a" and "0 < b"
  shows "js_nonneg (js_mul a (Num b))"
proof (cases a)
  case (Num x)
  with assms have "0 \<le> x * b" by simp
  then have "js_nonneg (roundResult (x * b))" by (rule roundResult_nonneg)
  with Num assms show ?thesis by (simp add: js_mul_def js_signedZero_def)
qed (use assms in \<open>simp_all add: js_mul_def js_signedInf_def\<close>)

lemma js_pow2_nonneg:
  assumes "\<not> js_isNaN a"
  shows "js_nonneg (js_pow2 a)"
proof (cases a)
  case (Num x)
  have "js_nonneg (roundResult (x * x))" by (rule roundResult_nonneg) simp
  with Num show ?thesis by (simp add: js_pow2_def js_mul_def js_signedZero_def)
qed (use assms in \<open>simp_all add: js_pow2_def js_mul_def js_signedInf_def js_signedZero_def\<close>)

lemma js_sqrt_nonneg: "js_nonneg a \<Longrightarrow> js_nonneg (js_sqrt a)"
  using roundDouble_nonneg[of "sqrt (js_real a)"] by (cases a) simp_all

lemma js_round_nonneg: "js_nonneg a \<Longrightarrow> js_nonneg (js_round a)"
  by (cases a) simp_all

lemma js_min_ten_nonneg:
  assumes "js_nonneg a"
  shows "\<exists>v. js_min (Num 10) a = Num v \<and> 0 \<le> v \<and> v \<le> 10"
  using assms by (cases a) (auto simp add: js_min_def js_lt_def)

subsection \<open>The mean and the deviation\<close>

lemma js_add_notNaN:
  assumes "\<not> js_isNaN a"
  shows "\<not> js_isNaN (js_add a (Num b))"
  using assms roundResult_notNaN[of "js_real a + b"]
  by (cases a) (simp_all add: js_add_def)

lemma sum_notNaN:
  assumes "\<not> js_isNaN a"
  shows "\<not> js_isNaN (foldl (\<lambda>a b. js_add a (Num b)) a vals)"
  using assms by (induction vals arbitrary: a) (simp_all add: js_add_notNaN)

lemma unroundedMean_notNaN:
  assumes "vals \<noteq> []"
  shows "\<not> js_isNaN (unroundedMean vals)"
proof -
  define t where "t = foldl (\<lambda>a b. js_add a (Num b)) (Num 0) vals"
  have t: "\<not> js_isNaN t" unfolding t_def by (rule sum_notNaN) simp
  have n: "0 < real (length vals)" using assms by simp
  have "\<not> js_isNaN (js_div t (Num (real (length vals))))"
    using t n roundResult_notNaN[of "js_real t / real (length vals)"]
    by (cases t) (simp_all add: js_div_def js_signedInf_def js_signedZero_def)
  then show ?thesis unfolding unroundedMean_def t_def .
qed

lemma js_sub_notNaN:
  assumes "\<not> js_isNaN m"
  shows "\<not> js_isNaN (js_sub (Num x) m)"
  using assms by (cases m) (simp_all add: js_sub_def js_add_def roundResult_notNaN)

lemma squares_nonneg:
  assumes "js_nonneg a" and "\<not> js_isNaN m"
  shows "js_nonneg (foldl (\<lambda>sq x. js_add sq (js_pow2 (js_sub (Num x) m))) a vals)"
  using assms(1)
proof (induction vals arbitrary: a)
  case Nil
  then show ?case by simp
next
  case (Cons v vals)
  have "js_nonneg (js_pow2 (js_sub (Num v) m))"
    by (rule js_pow2_nonneg, rule js_sub_notNaN, rule assms(2))
  with Cons.prems have "js_nonneg (js_add a (js_pow2 (js_sub (Num v) m)))"
    by (rule js_add_nonneg)
  then show ?case using Cons.IH by simp
qed

lemma unroundedStd_nonneg:
  assumes "2 \<le> length vals"
  shows "js_nonneg (unroundedStd vals)"
proof -
  have ne: "vals \<noteq> []" using assms by auto
  have d: "0 < real (length vals) - 1" using assms by simp
  have "js_nonneg (foldl (\<lambda>sq x. js_add sq (js_pow2 (js_sub (Num x) (unroundedMean vals))))
          (Num 0) vals)"
    by (rule squares_nonneg) (simp_all add: unroundedMean_notNaN[OF ne])
  then show ?thesis
    unfolding unroundedStd_def by (intro js_sqrt_nonneg js_div_nonneg_pos d)
qed

lemma calculateStatistics_mean_std:
  assumes "vals \<noteq> []"
  shows "\<exists>s. calculateStatistics vals = Some s
           \<and> mean s = js_round (unroundedMean vals)
           \<and> std s = js_round (unroundedStd vals)"
  using assms
  unfolding calculateStatistics_def Let_def unroundedStd_def unroundedMean_def
  by simp

subsection \<open>The score\<close>

lemma volatility_clamped:
  assumes "mean s = Num m" and "0 < m" and "js_nonneg (std s)"
  shows "\<exists>v. volatilityOf (Some s) = Num v \<and> 0 \<le> v \<and> v \<le> 10"
proof -
  have "js_nonneg (js_round (js_mul (js_div (std s) (Num m)) (Num 10)))"
    by (intro js_round_nonneg js_mul_nonneg_pos js_div_nonneg_pos assms) simp
  then have "\<exists>v. js_min (Num 10) (js_round (js_mul (js_div (std s) (Num m)) (Num 10))) = Num v
               \<and> 0 \<le> v \<and> v \<le> 10"
    by (rule js_min_ten_nonneg)
  then show ?thesis
    unfolding volatilityOf_def Let_def statNum_def by (simp add: assms(1))
qed

lemma volatility_zero_mean:
  assumes "mean s = Num 0" and "js_lt (Num 0) (std s)"
  shows "volatilityOf (Some s) = Num 10"
proof -
  have "js_div (std s) (Num 0) = PosInf"
    using assms(2) by (cases "std s") (simp_all add: js_div_def js_lt_def js_signedInf_def)
  then show ?thesis
    unfolding volatilityOf_def Let_def statNum_def
    by (simp add: assms(1) js_mul_def js_signedInf_def js_min_def js_lt_def)
qed

lemma volatility_negative_zero_mean:
  assumes "mean s = NegZero" and "js_lt (Num 0) (std s)"
  shows "volatilityOf (Some s) = NegInf"
proof -
  have "js_div (std s) NegZero = NegInf"
    using assms(2) by (cases "std s") (simp_all add: js_div_def js_lt_def js_signedInf_def)
  then show ?thesis
    unfolding volatilityOf_def Let_def statNum_def
    by (simp add: assms(1) js_mul_def js_signedInf_def js_min_def js_lt_def)
qed

lemma volatility_zero_zero:
  assumes "js_isZero (mean s)" and "js_isZero (std s)"
  shows "volatilityOf (Some s) = NaN"
proof -
  have "js_div (std s) (mean s) = NaN"
    using assms by (cases "std s"; cases "mean s") (simp_all add: js_div_def)
  then show ?thesis
    unfolding volatilityOf_def Let_def statNum_def
    by (simp add: js_mul_def js_min_def)
qed

subsection \<open>Evaluations\<close>

lemma js_add_Num:
  "js_add (Num a) (Num b) = (if a + b = 0 then Num 0 else roundResult (a + b))"
  by (simp add: js_add_def)

lemma js_sub_Num:
  "js_sub (Num a) (Num b) = (if a - b = 0 then Num 0 else roundResult (a - b))"
  by (simp add: js_sub_def js_add_def)

lemma js_sub_NegZero: "js_sub (Num a) NegZero = (if a = 0 then Num 0 else roundResult a)"
  by (simp add: js_sub_def js_add_def)

lemma js_pow2_Num: "js_pow2 (Num a) = (if a = 0 then Num 0 else roundResult (a * a))"
  by (simp add: js_pow2_def js_mul_def js_signedZero_def)

lemma js_div_Num:
  "js_div (Num a) (Num b) =
     (if b = 0 then (if a = 0 then NaN else js_signedInf ((a < 0) \<noteq> (b < 0)))
      else if a = 0 then js_signedZero ((a < 0) \<noteq> (b < 0))
      else roundResult (a / b))"
  by (simp add: js_div_def)

lemma js_mul_Num:
  "js_mul (Num a) (Num b) =
     (if a = 0 \<or> b = 0 then js_signedZero ((a < 0) \<noteq> (b < 0)) else roundResult (a * b))"
  by (simp add: js_mul_def)

lemma js_special:
  "js_mul NaN b = NaN" "js_mul NegInf (Num 10) = NegInf" "js_mul PosInf (Num 10) = PosInf"
  "js_div (Num 1) NegZero = NegInf"
  by (simp_all add: js_mul_def js_div_def js_signedInf_def)

lemmas stats_simps = calculateStatistics_def Let_def js_add_Num js_sub_Num js_sub_NegZero
  js_pow2_Num js_div_Num js_mul_Num js_signedZero_def

lemma stats_example: "calculateStatistics [5, 10, 0] = Some s \<Longrightarrow> mean s = Num 5 \<and> std s = Num 5"
  by (auto simp add: stats_simps)

lemma stats_zero_mean:
  "calculateStatistics [- 3, 0, 3] = Some s \<Longrightarrow> mean s = Num 0 \<and> std s = Num 3"
  by (auto simp add: stats_simps)

lemma stats_negative_zero_mean:
  "calculateStatistics [- (5 / 4), - (1 / 4), 3 / 4] = Some s
     \<Longrightarrow> mean s = NegZero \<and> std s = Num 1"
  by (auto simp add: stats_simps)

lemma stats_all_zero:
  "calculateStatistics [0, 0, 0] = Some s \<Longrightarrow> mean s = Num 0 \<and> std s = Num 0"
  by (auto simp add: stats_simps)

lemma stats_negative:
  "calculateStatistics [- 12, - 8, - 4] = Some s \<Longrightarrow> mean s = Num (- 8) \<and> std s = Num 4"
  by (auto simp add: stats_simps)

lemma sqrt_quarter: "sqrt (1 / 4) = 1 / 2"
  by (simp add: real_sqrt_divide)

lemma stats_rounded:
  "calculateStatistics [1, 3 / 2, 2] = Some s \<Longrightarrow> mean s = Num 2 \<and> std s = Num 1"
  by (auto simp add: stats_simps sqrt_quarter)

lemma volatility_negative: "volatilityOf (calculateStatistics [- 12, - 8, - 4]) = Num (- 5)"
  by (simp add: stats_simps volatilityOf_def statNum_def js_min_def js_lt_def)

lemma volatility_rounded: "volatilityOf (calculateStatistics [1, 3 / 2, 2]) = Num 5"
  by (simp add: stats_simps volatilityOf_def statNum_def js_min_def js_lt_def sqrt_quarter)

lemma spec_unrounded: "specVolatilityScore [1, 3 / 2, 2] = 3"
  by (simp add: specVolatilityScore_def Let_def power2_eq_square sqrt_quarter)

lemma volatility_all_zero: "volatilityOf (calculateStatistics [0, 0, 0]) = NaN"
  by (simp add: stats_simps volatilityOf_def statNum_def js_min_def js_lt_def js_special)

lemma volatility_negative_infinity:
  "volatilityOf (calculateStatistics [- (5 / 4), - (1 / 4), 3 / 4]) = NegInf"
  by (simp add: stats_simps volatilityOf_def statNum_def js_min_def js_lt_def js_special)

text \<open>
  Claim C7, as amended.  For a non-empty windowed series the volatility score is
  \<open>min(10, round((std / mean) * 10))\<close>, computed from the mean and the sample standard
  deviation as the summary exposes them, that is, each rounded to the nearest integer.
  The score never exceeds 10, and there is no lower clamp.  It lies in \<open>[0, 10]\<close> when
  the rounded mean is a positive finite number and the series has at least two points.
  When the rounded deviation is positive, the score is 10 if the rounded mean is the
  positive zero and \<open>-\<infinity>\<close> if it is the negative zero, which is what a mean in
  \<open>[-0.5, 0)\<close> rounds to.  When the rounded mean and the rounded deviation are both zero
  the score is \<open>NaN\<close>.
\<close>

theorem volatility_score:
  assumes "combineHighResData batch ths isHighBad = Inr cd"
    and "cd_timeSeriesData cd \<noteq> []"
    and "vals = map sp_value (cd_timeSeriesData cd)"
  shows "\<exists>s. cd_stats cd = Some s
           \<and> mean s = js_round (unroundedMean vals)
           \<and> std s = js_round (unroundedStd vals)
           \<and> volatilityScore cd
               = js_min (Num 10) (js_round (js_mul (js_div (std s) (mean s)) (Num 10)))
           \<and> \<not> js_lt (Num 10) (volatilityScore cd)
           \<and> ((\<exists>m. mean s = Num m \<and> 0 < m) \<and> 2 \<le> length vals
                \<longrightarrow> (\<exists>v. volatilityScore cd = Num v \<and> 0 \<le> v \<and> v \<le> 10))
           \<and> (mean s = Num 0 \<and> js_lt (Num 0) (std s) \<longrightarrow> volatilityScore cd = Num 10)
           \<and> (mean s = NegZero \<and> js_lt (Num 0) (std s) \<longrightarrow> volatilityScore cd = NegInf)
           \<and> (js_isZero (mean s) \<and> js_isZero (std s) \<longrightarrow> volatilityScore cd = NaN)"
proof -
  have ne: "vals \<noteq> []" using assms(2,3) by simp
  from combineHighResData_nonempty[OF assms(1,2)] assms(3)
  have st: "cd_stats cd = calculateStatistics vals"
    and vs: "volatilityScore cd = volatilityOf (cd_stats cd)" by simp_all
  from calculateStatistics_mean_std[OF ne] obtain s where
    s: "calculateStatistics vals = Some s"
    and m: "mean s = js_round (unroundedMean vals)"
    and d: "std s = js_round (unroundedStd vals)"
    by blast
  have v: "volatilityScore cd = volatilityOf (Some s)" using vs st s by simp
  have f: "volatilityScore cd
               = js_min (Num 10) (js_round (js_mul (js_div (std s) (mean s)) (Num 10)))"
    unfolding v by (simp add: volatilityOf_def statNum_def)
  have u: "\<not> js_lt (Num 10) (volatilityScore cd)"
    unfolding f by (rule js_min_upper)
  have e: "\<exists>v. volatilityScore cd = Num v \<and> 0 \<le> v \<and> v \<le> 10"
    if "(\<exists>m. mean s = Num m \<and> 0 < m) \<and> 2 \<le> length vals"
  proof -
    from that obtain mm where mm: "mean s = Num mm" "0 < mm" and two: "2 \<le> length vals"
      by blast
    have "js_nonneg (std s)"
      unfolding d by (rule js_round_nonneg, rule unroundedStd_nonneg, rule two)
    from volatility_clamped[OF mm this] show ?thesis unfolding v .
  qed
  have z: "volatilityScore cd = Num 10" if "mean s = Num 0 \<and> js_lt (Num 0) (std s)"
    using that unfolding v by (intro volatility_zero_mean) simp_all
  have n: "volatilityScore cd = NegInf" if "mean s = NegZero \<and> js_lt (Num 0) (std s)"
    using that unfolding v by (intro volatility_negative_zero_mean) simp_all
  have q: "volatilityScore cd = NaN" if "js_isZero (mean s) \<and> js_isZero (std s)"
    using that unfolding v by (intro volatility_zero_zero) simp_all
  show ?thesis
    apply (rule exI[of _ s])
    apply (intro conjI impI)
    subgoal using st s by simp
    subgoal by (rule m)
    subgoal by (rule d)
    subgoal by (rule f)
    subgoal by (rule u)
    subgoal by (rule e)
    subgoal by (rule z)
    subgoal by (rule n)
    subgoal by (rule q)
    done
qed

theorem volatility_score_witness:
  "combineHighResData exampleBatch exampleThresholds True
     = Inr (combinedOf [5, 10, 0] exampleThresholds True 5)
   \<and> cd_timeSeriesData (combinedOf [5, 10, 0] exampleThresholds True 5) \<noteq> []
   \<and> [5, 10, 0] = map sp_value (cd_timeSeriesData (combinedOf [5, 10, 0] exampleThresholds True 5))
   \<and> (\<exists>s. cd_stats (combinedOf [5, 10, 0] exampleThresholds True 5) = Some s
          \<and> (\<exists>m. mean s = Num m \<and> 0 < m) \<and> 2 \<le> length [5, 10, 0 :: real]
          \<and> (\<exists>v. volatilityScore (combinedOf [5, 10, 0] exampleThresholds True 5) = Num v
                 \<and> 0 \<le> v \<and> v \<le> 10))
   \<and> combineHighResData (fiveMinuteBatch [- 3, - 3, - 3, 3, 3]) exampleThresholds True
     = Inr (combinedOf [- 3, 0, 3] exampleThresholds True 5)
   \<and> cd_timeSeriesData (combinedOf [- 3, 0, 3] exampleThresholds True 5) \<noteq> []
   \<and> [- 3, 0, 3]
       = map sp_value (cd_timeSeriesData (combinedOf [- 3, 0, 3] exampleThresholds True 5))
   \<and> (\<exists>s. cd_stats (combinedOf [- 3, 0, 3] exampleThresholds True 5) = Some s
          \<and> mean s = Num 0 \<and> js_lt (Num 0) (std s)
          \<and> volatilityScore (combinedOf [- 3, 0, 3] exampleThresholds True 5) = Num 10)
   \<and> combineHighResData (fiveMinuteBatch [- (5 / 4), - (5 / 4), - (5 / 4), 3 / 4, 3 / 4])
        exampleThresholds True
     = Inr (combinedOf [- (5 / 4), - (1 / 4), 3 / 4] exampleThresholds True 5)
   \<and> cd_timeSeriesData (combinedOf [- (5 / 4), - (1 / 4), 3 / 4] exampleThresholds True 5) \<noteq> []
   \<and> [- (5 / 4), - (1 / 4), 3 / 4]
       = map sp_value
           (cd_timeSeriesData (combinedOf [- (5 / 4), - (1 / 4), 3 / 4] exampleThresholds True 5))
   \<and> (\<exists>s. cd_stats (combinedOf [- (5 / 4), - (1 / 4), 3 / 4] exampleThresholds True 5) = Some s
          \<and> mean s = NegZero \<and> js_lt (Num 0) (std s)
          \<and> volatilityScore (combinedOf [- (5 / 4), - (1 / 4), 3 / 4] exampleThresholds True 5)
              = NegInf)
   \<and> combineHighResData (fiveMinuteBatch [0, 0, 0, 0, 0]) exampleThresholds True
     = Inr (combinedOf [0, 0, 0] exampleThresholds True 5)
   \<and> cd_timeSeriesData (combinedOf [0, 0, 0] exampleThresholds True 5) \<noteq> []
   \<and> [0, 0, 0] = map sp_value (cd_timeSeriesData (combinedOf [0, 0, 0] exampleThresholds True 5))
   \<and> (\<exists>s. cd_stats (combinedOf [0, 0, 0] exampleThresholds True 5) = Some s
          \<and> js_isZero (mean s) \<and> js_isZero (std s)
          \<and> volatilityScore (combinedOf [0, 0, 0] exampleThresholds True 5) = NaN)"
proof -
  let ?cd = "combinedOf [5, 10, 0] exampleThresholds True 5"
  let ?cz = "combinedOf [- 3, 0, 3] exampleThresholds True 5"
  let ?cn = "combinedOf [- (5 / 4), - (1 / 4), 3 / 4] exampleThresholds True 5"
  let ?co = "combinedOf [0, 0, 0] exampleThresholds True 5"
  have a1: "combineHighResData exampleBatch exampleThresholds True = Inr ?cd"
    by (rule exampleBatch_combined)
  have a2: "cd_timeSeriesData ?cd \<noteq> []" by (simp add: combinedOf_fields rollingSeries_three)
  have a3: "[5, 10, 0] = map sp_value (cd_timeSeriesData ?cd)"
    by (simp only: combinedOf_fields rollingSeries_three)
  from volatility_score[OF a1 a2 a3] obtain s where
    s: "cd_stats ?cd = Some s"
    and e: "(\<exists>m. mean s = Num m \<and> 0 < m) \<and> 2 \<le> length [5, 10, 0 :: real]
             \<longrightarrow> (\<exists>v. volatilityScore ?cd = Num v \<and> 0 \<le> v \<and> v \<le> 10)"
    by blast
  from s have "mean s = Num 5 \<and> std s = Num 5"
    by (intro stats_example) (simp only: combinedOf_fields)
  then have p: "\<exists>m. mean s = Num m \<and> 0 < m" "2 \<le> length [5, 10, 0 :: real]"
    by simp_all
  with e have v: "\<exists>v. volatilityScore ?cd = Num v \<and> 0 \<le> v \<and> v \<le> 10" by blast
  have A: "\<exists>s. cd_stats ?cd = Some s
          \<and> (\<exists>m. mean s = Num m \<and> 0 < m) \<and> 2 \<le> length [5, 10, 0 :: real]
          \<and> (\<exists>v. volatilityScore ?cd = Num v \<and> 0 \<le> v \<and> v \<le> 10)"
    using s p v by blast
  have b1: "combineHighResData (fiveMinuteBatch [- 3, - 3, - 3, 3, 3]) exampleThresholds True
              = Inr ?cz"
    using fiveMinuteBatch_combined[of "- 3" "- 3" "- 3" 3 3 exampleThresholds True]
    by (simp add: averageOfTwo_examples)
  have b2: "cd_timeSeriesData ?cz \<noteq> []" by (simp add: combinedOf_fields rollingSeries_three)
  have b3: "[- 3, 0, 3] = map sp_value (cd_timeSeriesData ?cz)"
    by (simp only: combinedOf_fields rollingSeries_three)
  from volatility_score[OF b1 b2 b3] obtain z where
    z: "cd_stats ?cz = Some z"
    and f: "mean z = Num 0 \<and> js_lt (Num 0) (std z) \<longrightarrow> volatilityScore ?cz = Num 10"
    by blast
  from z have "mean z = Num 0 \<and> std z = Num 3"
    by (intro stats_zero_mean) (simp only: combinedOf_fields)
  then have q: "mean z = Num 0" "js_lt (Num 0) (std z)"
    by (simp_all add: js_lt_def)
  with f have "volatilityScore ?cz = Num 10" by blast
  with z q have B: "\<exists>s. cd_stats ?cz = Some s
          \<and> mean s = Num 0 \<and> js_lt (Num 0) (std s)
          \<and> volatilityScore ?cz = Num 10"
    by blast
  have c1: "combineHighResData (fiveMinuteBatch [- (5 / 4), - (5 / 4), - (5 / 4), 3 / 4, 3 / 4])
              exampleThresholds True = Inr ?cn"
    using fiveMinuteBatch_combined[of "- (5 / 4)" "- (5 / 4)" "- (5 / 4)" "3 / 4" "3 / 4"
            exampleThresholds True]
    by (simp add: averageOfTwo_examples)
  have c2: "cd_timeSeriesData ?cn \<noteq> []" by (simp add: combinedOf_fields rollingSeries_three)
  have c3: "[- (5 / 4), - (1 / 4), 3 / 4] = map sp_value (cd_timeSeriesData ?cn)"
    by (simp only: combinedOf_fields rollingSeries_three)
  from volatility_score[OF c1 c2 c3] obtain n where
    n: "cd_stats ?cn = Some n"
    and g: "mean n = NegZero \<and> js_lt (Num 0) (std n) \<longrightarrow> volatilityScore ?cn = NegInf"
    by blast
  from n have "mean n = NegZero \<and> std n = Num 1"
    by (intro stats_negative_zero_mean) (simp only: combinedOf_fields)
  then have r: "mean n = NegZero" "js_lt (Num 0) (std n)"
    by (simp_all add: js_lt_def)
  with g have "volatilityScore ?cn = NegInf" by blast
  with n r have C: "\<exists>s. cd_stats ?cn = Some s
          \<and> mean s = NegZero \<and> js_lt (Num 0) (std s)
          \<and> volatilityScore ?cn = NegInf"
    by blast
  have d1: "combineHighResData (fiveMinuteBatch [0, 0, 0, 0, 0]) exampleThresholds True
              = Inr ?co"
    using fiveMinuteBatch_combined[of 0 0 0 0 0 exampleThresholds True]
    by (simp add: averageOfTwo_examples)
  have d2: "cd_timeSeriesData ?co \<noteq> []" by (simp add: combinedOf_fields rollingSeries_three)
  have d3: "[0, 0, 0] = map sp_value (cd_timeSeriesData ?co)"
    by (simp only: combinedOf_fields rollingSeries_three)
  from volatility_score[OF d1 d2 d3] obtain y where
    y: "cd_stats ?co = Some y"
    and h: "js_isZero (mean y) \<and> js_isZero (std y) \<longrightarrow> volatilityScore ?co = NaN"
    by blast
  from y have "mean y = Num 0 \<and> std y = Num 0"
    by (intro stats_all_zero) (simp only: combinedOf_fields)
  then have t: "js_isZero (mean y)" "js_isZero (std y)"
    by simp_all
  with h have "volatilityScore ?co = NaN" by blast
  with y t have D: "\<exists>s. cd_stats ?co = Some s
          \<and> js_isZero (mean s) \<and> js_isZero (std s)
          \<and> volatilityScore ?co = NaN"
    by blast
  show ?thesis
    apply (intro conjI)
                   apply (rule a1)
                  apply (rule a2)
                 apply (rule a3)
                apply (rule A)
               apply (rule b1)
              apply (rule b2)
             apply (rule b3)
            apply (rule B)
           apply (rule c1)
          apply (rule c2)
         apply (rule c3)
        apply (rule C)
       apply (rule d1)
      apply (rule d2)
     apply (rule d3)
    apply (rule D)
    done
qed

text \<open>
  Claim C7 as stated fails in each of its three parts.  The windowed series -12, -8, -4
  has the score -5, below the stated range.  The series 1, 1.5, 2 has the score 5, from
  the rounded mean 2 and the rounded deviation 1, where the unrounded values of the
  statement give 3.  The series 0, 0, 0 has mean 0 and the score \<open>NaN\<close>, not 10.
\<close>

theorem volatility_score_counterexample:
  "combineHighResData (fiveMinuteBatch [- 12, - 12, - 12, - 4, - 4]) exampleThresholds True
     = Inr (combinedOf [- 12, - 8, - 4] exampleThresholds True 5)
   \<and> volatilityScore (combinedOf [- 12, - 8, - 4] exampleThresholds True 5) = Num (- 5)
   \<and> combineHighResData (fiveMinuteBatch [1, 1, 1, 2, 2]) exampleThresholds True
     = Inr (combinedOf [1, 3 / 2, 2] exampleThresholds True 5)
   \<and> volatilityScore (combinedOf [1, 3 / 2, 2] exampleThresholds True 5) = Num 5
   \<and> specVolatilityScore [1, 3 / 2, 2] = 3
   \<and> combineHighResData (fiveMinuteBatch [0, 0, 0, 0, 0]) exampleThresholds True
     = Inr (combinedOf [0, 0, 0] exampleThresholds True 5)
   \<and> sum_list [0, 0, 0 :: real] / 3 = 0
   \<and> volatilityScore (combinedOf [0, 0, 0] exampleThresholds True 5) = NaN"
proof -
  have a: "combineHighResData (fiveMinuteBatch [- 12, - 12, - 12, - 4, - 4]) exampleThresholds True
     = Inr (combinedOf [- 12, - 8, - 4] exampleThresholds True 5)"
    using fiveMinuteBatch_combined[of "- 12" "- 12" "- 12" "- 4" "- 4" exampleThresholds True]
    by (simp add: averageOfTwo_examples)
  have b: "combineHighResData (fiveMinuteBatch [1, 1, 1, 2, 2]) exampleThresholds True
     = Inr (combinedOf [1, 3 / 2, 2] exampleThresholds True 5)"
    using fiveMinuteBatch_combined[of 1 1 1 2 2 exampleThresholds True]
    by (simp add: averageOfTwo_examples)
  have c: "combineHighResData (fiveMinuteBatch [0, 0, 0, 0, 0]) exampleThresholds True
     = Inr (combinedOf [0, 0, 0] exampleThresholds True 5)"
    using fiveMinuteBatch_combined[of 0 0 0 0 0 exampleThresholds True]
    by (simp add: averageOfTwo_examples)
  show ?thesis
    apply (intro conjI)
           apply (rule a)
          apply (simp only: combinedOf_fields volatility_negative)
         apply (rule b)
        apply (simp only: combinedOf_fields volatility_rounded)
       apply (rule spec_unrounded)
      apply (rule c)
     apply simp
    apply (simp only: combinedOf_fields volatility_all_zero)
    done
qed

section \<open>The recommendation strategy\<close>

lemma js_lt_Num [simp]: "js_lt (Num a) (Num b) \<longleftrightarrow> a < b"
  by (simp add: js_lt_def)

lemma strategy_generateRecommendations:
  "strategy (generateRecommendations combined isHighBad) =
     (if js_lt (Num 7) (volatilityScore combined)
         \<or> bsGreater sustainedBreaches (cd_breachStats combined) 3
      then Conservative
      else if js_lt (Num 4) (volatilityScore combined)
         \<or> bsGreater totalBreaches (cd_breachStats combined) 5
      then Balanced
      else Standard)"
  by (simp add: generateRecommendations_def Let_def)

text \<open>
  Claim C8.  With a numeric volatility score \<open>v\<close> and breach statistics \<open>b\<close>, the
  strategy is Conservative when \<open>v > 7\<close> or more than 3 breaches are sustained,
  otherwise Balanced when \<open>v > 4\<close> or there are more than 5 breaches, otherwise
  Standard.  Raising the score with everything else fixed never selects a less strict
  strategy; in particular a Conservative choice at score 3 stays Conservative at score 9.
\<close>

theorem strategy_selection:
  assumes "volatilityScore combined = Num v" and "cd_breachStats combined = Some b"
  shows "strategy (generateRecommendations combined isHighBad) =
           (if v > 7 \<or> sustainedBreaches b > 3 then Conservative
            else if v > 4 \<or> totalBreaches b > 5 then Balanced
            else Standard)
       \<and> (v \<le> v' \<longrightarrow>
            strictness (strategy (generateRecommendations combined isHighBad))
              \<le> strictness (strategy (generateRecommendations
                               (combined\<lparr>volatilityScore := Num v'\<rparr>) isHighBad)))
       \<and> (v = 3 \<and> strategy (generateRecommendations combined isHighBad) = Conservative
            \<longrightarrow> strategy (generateRecommendations
                           (combined\<lparr>volatilityScore := Num 9\<rparr>) isHighBad) = Conservative)"
  using assms by (auto simp: strategy_generateRecommendations bsGreater_def)

theorem strategy_selection_witness:
  "volatilityScore (emptyCombined\<lparr>volatilityScore := Num 3,
       cd_breachStats := Some \<lparr>totalBreaches = 4, criticalBreaches = 4, warningBreaches = 0,
         avgDuration = 40, longestBreach = 50, shortBreaches = 0, sustainedBreaches = 4,
         maxDeviationStat = 7\<rparr>\<rparr>) = Num 3
   \<and> strategy (generateRecommendations (emptyCombined\<lparr>volatilityScore := Num 3,
       cd_breachStats := Some \<lparr>totalBreaches = 4, criticalBreaches = 4, warningBreaches = 0,
         avgDuration = 40, longestBreach = 50, shortBreaches = 0, sustainedBreaches = 4,
         maxDeviationStat = 7\<rparr>\<rparr>) True) = Conservative
   \<and> (3::real) \<le> 9
   \<and> strategy (generateRecommendations (emptyCombined\<lparr>volatilityScore := Num 3,
       cd_breachStats := Some \<lparr>totalBreaches = 4, criticalBreaches = 4, warningBreaches = 0,
         avgDuration = 40, longestBreach = 50, shortBreaches = 0, sustainedBreaches = 4,
         maxDeviationStat = 7\<rparr>, volatilityScore := Num 9\<rparr>) True) = Conservative"
proof -
  let ?b = "\<lparr>totalBreaches = 4, criticalBreaches = 4, warningBreaches = 0,
         avgDuration = 40, longestBreach = 50, shortBreaches = 0, sustainedBreaches = 4,
         maxDeviationStat = 7\<rparr>"
  let ?cd = "emptyCombined\<lparr>volatilityScore := Num 3, cd_breachStats := Some ?b\<rparr>"
  have h1: "volatilityScore ?cd = Num 3" by simp
  have h2: "cd_breachStats ?cd = Some ?b" by simp
  from strategy_selection[OF h1 h2, of True 9] h1 show ?thesis by simp
qed

section \<open>An empty windowed series\<close>

lemma generateRecommendations_empty:
  "generateRecommendations emptyCombined h
     = \<lparr> strategy = Standard, rec_critical = NaN,
         critical_operator = (if h then ''>'' else ''<''),
         rec_warning = NaN, warning_operator = (if h then ''>'' else ''<''),
         recovery = NaN, recovery_operator = (if h then ''>'' else ''<''),
         recommended_window = (if h then ''avg(last_5m)'' else ''avg(last_15m)''),
         recommended_delay = (if h then 300 else 600) \<rparr>"
  by (simp add: generateRecommendations_def emptyCombined_def Let_def js_lt_def
        bsGreater_def statNum_def js_mul_def)

lemma combineHighResData_no_windows:
  assumes "batch \<noteq> []" and "timeSeriesData (batch ! 0) \<noteq> []"
    and "rollingWindowData (batch ! 0) = Inr []"
  shows "combineHighResData batch ths h = Inr emptyCombined"
  using assms by (simp add: combineHighResData_def Let_def)

text \<open>
  Claim C9, as amended.  On an empty windowed series nothing signals insufficient data.
  The detector returns an empty breach list with empty statistics.  When the aggregator
  returns the empty list for the first entry of a batch, whose raw series is not empty,
  \<^const>\<open>combineHighResData\<close> returns the empty summary, as it does for an empty batch: no
  statistics, no breaches, no breach statistics, volatility score 0.  Both are ordinary
  results.
\<close>

theorem empty_series_no_signal:
  "analyzeThresholdBreaches [] ths isHighBad = \<lparr> breaches = [], stats = None \<rparr>
   \<and> combineHighResData [] ths isHighBad = Inr emptyCombined
   \<and> (batch \<noteq> [] \<and> timeSeriesData (batch ! 0) \<noteq> [] \<and> rollingWindowData (batch ! 0) = Inr []
        \<longrightarrow> combineHighResData batch ths isHighBad = Inr emptyCombined)
   \<and> cd_stats emptyCombined = None \<and> cd_breachStats emptyCombined = None
   \<and> cd_breaches emptyCombined = [] \<and> volatilityScore emptyCombined = Num 0
   \<and> cd_timeSeriesData emptyCombined = []"
proof -
  have a: "analyzeThresholdBreaches [] ths isHighBad = \<lparr> breaches = [], stats = None \<rparr>"
    by (simp add: analyzeThresholdBreaches_def)
  have b: "combineHighResData [] ths isHighBad = Inr emptyCombined"
    by (simp add: combineHighResData_def)
  have c: "batch \<noteq> [] \<and> timeSeriesData (batch ! 0) \<noteq> [] \<and> rollingWindowData (batch ! 0) = Inr []
        \<longrightarrow> combineHighResData batch ths isHighBad = Inr emptyCombined"
    using combineHighResData_no_windows by blast
  show ?thesis
    using a b c by (simp add: emptyCombined_def)
qed

theorem empty_series_no_signal_witness:
  "singleSampleBatch \<noteq> [] \<and> timeSeriesData (singleSampleBatch ! 0) \<noteq> []
   \<and> rollingWindowData (singleSampleBatch ! 0) = Inr []
   \<and> combineHighResData singleSampleBatch exampleThresholds True = Inr emptyCombined
   \<and> analyzeThresholdBreaches [] exampleThresholds True = \<lparr> breaches = [], stats = None \<rparr>
   \<and> cd_stats emptyCombined = None \<and> volatilityScore emptyCombined = Num 0"
proof -
  have h1: "singleSampleBatch \<noteq> []" "timeSeriesData (singleSampleBatch ! 0) \<noteq> []"
    by (simp_all add: singleSampleBatch_def)
  have h2: "rollingWindowData (singleSampleBatch ! 0) = Inr []"
    by (rule singleSampleBatch_windowed)
  note r = empty_series_no_signal[of exampleThresholds True singleSampleBatch]
  from r h1 h2 show ?thesis by blast
qed

text \<open>
  Claim C9 as stated asks for an explicit signal instead of \<open>NaN\<close> thresholds.  A
  single raw sample gives an empty windowed series; the summary is returned as an
  ordinary value, the detector returns an ordinary empty analysis, and the
  recommendation built from the summary has \<open>NaN\<close> for all three thresholds.
\<close>

theorem empty_series_no_signal_counterexample:
  "combineHighResData singleSampleBatch exampleThresholds True = Inr emptyCombined
   \<and> generateRecommendations emptyCombined True
       = \<lparr> strategy = Standard, rec_critical = NaN, critical_operator = ''>'',
           rec_warning = NaN, warning_operator = ''>'',
           recovery = NaN, recovery_operator = ''>'',
           recommended_window = ''avg(last_5m)'', recommended_delay = 300 \<rparr>
   \<and> analyzeThresholdBreaches (cd_timeSeriesData emptyCombined) exampleThresholds True
       = \<lparr> breaches = [], stats = None \<rparr>"
  by (simp add: singleSampleBatch_combined generateRecommendations_empty)
     (simp add: emptyCombined_def analyzeThresholdBreaches_def)


end
